theory Spec2Isabelle
  imports Main "HOL-Library.Code_Target_Nat"
begin

section \<open>Strings\<close>

text \<open>
  A Python \<open>str\<close> is a sequence of Unicode code points, and \<open>len\<close>, \<open>strip\<close>,
  \<open>split\<close> and \<open>startswith\<close> all work on code points. The documents are Arabic, so a
  string is modelled as the list of its code points; \<open>length\<close> is then Python's \<open>len\<close>.
\<close>

type_synonym ustring = "nat list"

text \<open>The characters for which \<open>str.isspace\<close> holds; \<open>strip()\<close> and \<open>split()\<close> use them.\<close>

definition py_isspace :: "nat \<Rightarrow> bool" where
  "py_isspace c \<longleftrightarrow>
     (9 \<le> c \<and> c \<le> 13) \<or> (28 \<le> c \<and> c \<le> 32) \<or> c = 133 \<or> c = 160 \<or> c = 5760
     \<or> (8192 \<le> c \<and> c \<le> 8202) \<or> c = 8232 \<or> c = 8233 \<or> c = 8239 \<or> c = 8287
     \<or> c = 12288"

definition py_strip :: "ustring \<Rightarrow> ustring" where
  "py_strip s = rev (dropWhile py_isspace (rev (dropWhile py_isspace s)))"

text \<open>\<open>s.split(sep)\<close> for a one-character separator: the empty string gives one empty field.\<close>

fun split_on :: "nat \<Rightarrow> ustring \<Rightarrow> ustring list" where
  "split_on d [] = [[]]"
| "split_on d (c # cs) =
     (if c = d then [] # split_on d cs
      else (case split_on d cs of [] \<Rightarrow> [[c]] | w # ws \<Rightarrow> (c # w) # ws))"

text \<open>\<open>s.split()\<close>: maximal runs of non-whitespace; \<open>w\<close> is the word being read.\<close>

fun split_ws :: "ustring \<Rightarrow> ustring \<Rightarrow> ustring list" where
  "split_ws w [] = (if w = [] then [] else [w])"
| "split_ws w (c # cs) =
     (if py_isspace c then (if w = [] then split_ws [] cs else w # split_ws [] cs)
      else split_ws (w @ [c]) cs)"

definition py_split :: "ustring \<Rightarrow> ustring list" where
  "py_split s = split_ws [] s"

definition startswith :: "ustring \<Rightarrow> ustring \<Rightarrow> bool" where
  "startswith s p \<longleftrightarrow> take (length p) s = p"

text \<open>\<open>sep.join(xs)\<close>.\<close>

fun py_join :: "ustring \<Rightarrow> ustring list \<Rightarrow> ustring" where
  "py_join sep [] = []"
| "py_join sep [x] = x"
| "py_join sep (x # y # ys) = x @ sep @ py_join sep (y # ys)"

section \<open>Errors\<close>

text \<open>The exceptions the two engines can raise, as values.\<close>

datatype error =
    FileNotFoundError
  | OSError
  | UnicodeDecodeError
  | ValueError
  | OverflowError
  | IntegrityError
  | OperationalError
  | RegexError

section \<open>Segmenter: \<open>parse_markdown_document_enhanced\<close>\<close>

subsection \<open>Page markers\<close>

text \<open>
  In a \<open>str\<close> pattern \<open>\d\<close> matches every character of category Nd, and \<open>int\<close> reads
  each of them as its decimal value. The Nd characters come in runs of ten that start at a
  zero; these are the zeros of Unicode 14.
\<close>

definition nd_zeros :: "nat list" where
  "nd_zeros = [48, 1632, 1776, 1984, 2406, 2534, 2662, 2790, 2918, 3046, 3174, 3302, 3430,
     3558, 3664, 3792, 3872, 4160, 4240, 6112, 6160, 6470, 6608, 6784, 6800, 6992, 7088, 7232,
     7248, 42528, 43216, 43264, 43472, 43504, 43600, 44016, 65296, 66720, 68912, 69734, 69872,
     69942, 70096, 70384, 70736, 70864, 71248, 71360, 71472, 71904, 72016, 72784, 73040, 73120,
     92768, 92864, 93008, 120782, 120792, 120802, 120812, 120822, 123200, 123632, 125264,
     130032]"

definition decimal_value :: "nat \<Rightarrow> nat option" where
  "decimal_value c =
     (case find (\<lambda>z. z \<le> c \<and> c < z + 10) nd_zeros of
        None \<Rightarrow> None
      | Some z \<Rightarrow> Some (c - z))"

definition is_decimal :: "nat \<Rightarrow> bool" where
  "is_decimal c \<longleftrightarrow> decimal_value c \<noteq> None"

text \<open>
  \<open>int(s)\<close> on a non-empty run of decimal digits. CPython refuses more than 4300 digits
  with a ValueError.
\<close>

definition py_int :: "ustring \<Rightarrow> error + int" where
  "py_int ds =
     (if length ds > 4300 then Inl ValueError
      else Inr (foldl (\<lambda>a c. 10 * a + int (case decimal_value c of None \<Rightarrow> 0 | Some v \<Rightarrow> v))
                  0 ds))"

definition page_marker :: ustring where
  "page_marker = [35, 35, 32, 80, 97, 103, 101, 32]"

text \<open>
  The pattern \<open>## Page (\d+)\<close> tried at one position: the captured digits and the text
  after the match.
\<close>

definition match_page_marker :: "ustring \<Rightarrow> (ustring \<times> ustring) option" where
  "match_page_marker s =
     (if take 8 s = page_marker then
        (let r = drop 8 s; ds = takeWhile is_decimal r
         in if ds = [] then None else Some (ds, dropWhile is_decimal r))
      else None)"

lemma match_page_marker_shorter:
  assumes "match_page_marker s = Some (ds, rest)"
  shows "length rest < length s"
proof -
  from assms have p: "take 8 s = page_marker"
    by (simp add: match_page_marker_def split: if_splits)
  then have "length (take 8 s) = 8"
    by (simp add: page_marker_def)
  then have l: "8 \<le> length s"
    by simp
  from assms p have "rest = dropWhile is_decimal (drop 8 s)"
    by (simp add: match_page_marker_def Let_def split: if_splits)
  then have "length rest \<le> length s - 8"
    using length_dropWhile_le [of is_decimal "drop 8 s"] by simp
  with l show ?thesis by simp
qed

text \<open>
  \<open>re.split(r'^## Page (\d+)', content, flags=re.MULTILINE)\<close>, scanning from the left.
  \<open>bol\<close> says that the position is the start of the string or follows a newline, where
  \<open>^\<close> matches. The result is the text before the first marker and, for every marker,
  its digits and the text up to the next marker.
\<close>

function re_split_pages :: "bool \<Rightarrow> ustring \<Rightarrow> ustring \<times> (ustring \<times> ustring) list" where
  "re_split_pages bol [] = ([], [])"
| "re_split_pages bol (c # cs) =
     (case (if bol then match_page_marker (c # cs) else None) of
        Some (ds, rest) \<Rightarrow>
          (case re_split_pages False rest of (t, secs) \<Rightarrow> ([], (ds, t) # secs))
      | None \<Rightarrow>
          (case re_split_pages (c = 10) cs of (t, secs) \<Rightarrow> (c # t, secs)))"
  by pat_completeness auto
termination
proof (relation "measure (\<lambda>(bol, s). length s)")
qed (auto split: if_splits dest: match_page_marker_shorter)

subsection \<open>Line classification\<close>

definition chapter_kw :: ustring where
  "chapter_kw = [1575, 1604, 1576, 1575, 1576]"

definition section_kw :: ustring where
  "section_kw = [1575, 1604, 1601, 1589, 1604]"

text \<open>The literal part of the article pattern: the article keyword, a space and \<open>(\<close>.\<close>

definition article_kw :: ustring where
  "article_kw = [1575, 1604, 1605, 1575, 1583, 1577, 32, 40]"

text \<open>
  The article pattern after the optional bold mark: the keyword, then \<open>([^)]+)\<close>, which
  takes every character up to the first \<open>)\<close> and needs at least one, then \<open>\)\<close>.
\<close>

definition match_label :: "ustring \<Rightarrow> ustring option" where
  "match_label s =
     (if startswith s article_kw then
        (let r = drop (length article_kw) s; label = takeWhile (\<lambda>c. c \<noteq> 41) r
         in if label \<noteq> [] \<and> dropWhile (\<lambda>c. c \<noteq> 41) r \<noteq> [] then Some label else None)
      else None)"

text \<open>
  \<open>re.match\<close> of the article pattern, giving \<open>group(1)\<close>. The optional \<open>**\<close> is tried
  first and given back when the rest does not match; the closing \<open>**\<close> never decides.
\<close>

definition article_match :: "ustring \<Rightarrow> ustring option" where
  "article_match line =
     (case (if startswith line [42, 42] then match_label (drop 2 line) else None) of
        Some label \<Rightarrow> Some label
      | None \<Rightarrow> match_label line)"

subsection \<open>Units and the scanner's state\<close>

text \<open>The two values the source writes to \<open>article_type\<close>: \<open>'article'\<close> and \<open>'general'\<close>.\<close>

datatype article_type = Article | General

text \<open>The dictionary appended to \<open>articles\<close>.\<close>

record legal_unit =
  u_id :: int
  u_document_name :: ustring
  u_page_number :: int
  u_chapter :: ustring
  u_section :: ustring
  u_article_number :: ustring
  u_title :: ustring
  u_content :: ustring
  u_article_type :: article_type
  u_position_in_page :: int

record page_content =
  pc_page_number :: int
  pc_content :: ustring
  pc_document_name :: ustring

text \<open>
  The local variables of \<open>parse_markdown_document_enhanced\<close>. The first five live for the
  whole document; the last five are set again at the start of every page.
\<close>

record pstate =
  pages_content :: "page_content list"
  articles :: "legal_unit list"
  current_chapter :: ustring
  current_section :: ustring
  article_id :: int
  current_article_content :: "ustring list"
  current_article_number :: ustring
  current_article_title :: ustring
  in_article :: bool
  position_in_page :: int

definition initial_pstate :: pstate where
  "initial_pstate =
     \<lparr>pages_content = [], articles = [], current_chapter = [], current_section = [],
      article_id = 0, current_article_content = [], current_article_number = [],
      current_article_title = [], in_article = False, position_in_page = 0\<rparr>"

text \<open>Appending the open article, as both places of the source that do so.\<close>

definition emit_article :: "ustring \<Rightarrow> int \<Rightarrow> pstate \<Rightarrow> pstate" where
  "emit_article document_name page_num st =
     st\<lparr>article_id := article_id st + 1,
        articles := articles st @
          [\<lparr>u_id = article_id st + 1, u_document_name = document_name,
            u_page_number = page_num, u_chapter = current_chapter st,
            u_section = current_section st, u_article_number = current_article_number st,
            u_title = current_article_title st,
            u_content = py_join [10] (current_article_content st),
            u_article_type = Article, u_position_in_page = position_in_page st\<rparr>]\<rparr>"

definition emit_general :: "ustring \<Rightarrow> int \<Rightarrow> int \<Rightarrow> ustring \<Rightarrow> pstate \<Rightarrow> pstate" where
  "emit_general document_name page_num line_idx line st =
     st\<lparr>article_id := article_id st + 1,
        articles := articles st @
          [\<lparr>u_id = article_id st + 1, u_document_name = document_name,
            u_page_number = page_num, u_chapter = current_chapter st,
            u_section = current_section st, u_article_number = [],
            u_title = [], u_content = line,
            u_article_type = General, u_position_in_page = line_idx\<rparr>]\<rparr>"

text \<open>What the open article is closed with when a new one starts or the page ends.\<close>

definition close_article :: "ustring \<Rightarrow> int \<Rightarrow> pstate \<Rightarrow> pstate" where
  "close_article document_name page_num st =
     (if in_article st \<and> current_article_content st \<noteq> []
      then emit_article document_name page_num st else st)"

text \<open>The body of the loop over \<open>enumerate(lines)\<close>.\<close>

definition scan_line :: "ustring \<Rightarrow> int \<Rightarrow> pstate \<Rightarrow> nat \<times> ustring \<Rightarrow> pstate" where
  "scan_line document_name page_num st il =
     (let line_idx = int (fst il); line = py_strip (snd il) in
      if line = [] then st
      else if startswith line chapter_kw then st\<lparr>current_chapter := line\<rparr>
      else if startswith line section_kw then st\<lparr>current_section := line\<rparr>
      else
        (case article_match line of
           Some label \<Rightarrow>
             (close_article document_name page_num st)
               \<lparr>current_article_number := label, current_article_title := [],
                current_article_content := [], in_article := True,
                position_in_page := line_idx\<rparr>
         | None \<Rightarrow>
             if in_article st
             then st\<lparr>current_article_content := current_article_content st @ [line]\<rparr>
             else if length line > 10
             then emit_general document_name page_num line_idx line st
             else st))"

text \<open>The start of a page: the page is recorded and the page's variables are set.\<close>

definition begin_page :: "ustring \<Rightarrow> int \<Rightarrow> ustring \<Rightarrow> pstate \<Rightarrow> pstate" where
  "begin_page document_name page_num page_text st =
     st\<lparr>pages_content := pages_content st @
          [\<lparr>pc_page_number = page_num, pc_content = page_text,
            pc_document_name = document_name\<rparr>],
        current_article_content := [], current_article_number := [],
        current_article_title := [], in_article := False, position_in_page := 0\<rparr>"

definition page_lines :: "ustring \<Rightarrow> (nat \<times> ustring) list" where
  "page_lines page_text = enumerate 0 (split_on 10 page_text)"

text \<open>
  One turn of the loop over the pages, for the section \<open>(digits, text)\<close> of one marker.
  \<open>int\<close> is the only step that can raise.
\<close>

definition scan_page :: "ustring \<Rightarrow> pstate \<Rightarrow> ustring \<times> ustring \<Rightarrow> error + pstate" where
  "scan_page document_name st sec =
     (case py_int (fst sec) of
        Inl e \<Rightarrow> Inl e
      | Inr page_num \<Rightarrow>
          (let page_text = py_strip (snd sec) in
           Inr (close_article document_name page_num
                  (foldl (scan_line document_name page_num)
                     (begin_page document_name page_num page_text st)
                     (page_lines page_text)))))"

fun scan_pages :: "ustring \<Rightarrow> pstate \<Rightarrow> (ustring \<times> ustring) list \<Rightarrow> error + pstate" where
  "scan_pages document_name st [] = Inr st"
| "scan_pages document_name st (sec # secs) =
     (case scan_page document_name st sec of
        Inl e \<Rightarrow> Inl e
      | Inr st' \<Rightarrow> scan_pages document_name st' secs)"

subsection \<open>Files\<close>

text \<open>
  What the file system answers for a path: no such file; a path that exists but cannot be
  opened or read; a file whose bytes are not UTF-8; or the text that \<open>f.read()\<close> returns.
\<close>

datatype file_state = Missing | Unreadable | Undecodable | Text ustring

type_synonym filesystem = "ustring \<Rightarrow> file_state"

definition path_exists :: "filesystem \<Rightarrow> ustring \<Rightarrow> bool" where
  "path_exists fs file_path \<longleftrightarrow> fs file_path \<noteq> Missing"

definition read_text :: "filesystem \<Rightarrow> ustring \<Rightarrow> error + ustring" where
  "read_text fs file_path =
     (case fs file_path of
        Missing \<Rightarrow> Inl FileNotFoundError
      | Unreadable \<Rightarrow> Inl OSError
      | Undecodable \<Rightarrow> Inl UnicodeDecodeError
      | Text content \<Rightarrow> Inr content)"

definition parse_content :: "ustring \<Rightarrow> ustring \<Rightarrow> error + page_content list \<times> legal_unit list" where
  "parse_content content document_name =
     (case scan_pages document_name initial_pstate (snd (re_split_pages True content)) of
        Inl e \<Rightarrow> Inl e
      | Inr st \<Rightarrow> Inr (pages_content st, articles st))"

definition parse_markdown_document_enhanced ::
  "filesystem \<Rightarrow> ustring \<Rightarrow> ustring \<Rightarrow> error + page_content list \<times> legal_unit list" where
  "parse_markdown_document_enhanced fs file_path document_name =
     (case read_text fs file_path of
        Inl e \<Rightarrow> Inl e
      | Inr content \<Rightarrow> parse_content content document_name)"

section \<open>Catalog and indexes: the SQLite database of \<open>EnhancedLegalSearchEngine\<close>\<close>

subsection \<open>Tables\<close>

text \<open>
  A table is the list of its rows in insertion order. The \<open>created_at\<close> columns hold the
  wall-clock time of the insert and are left out; nothing below reads them.
\<close>

record document_row =
  d_id :: int
  d_name :: ustring
  d_title :: ustring
  d_file_path :: ustring
  d_pages_count :: int

record page_row =
  p_id :: int
  p_document_id :: int
  p_page_number :: int
  p_content :: ustring

record article_row =
  a_id :: int
  a_document_id :: int
  a_page_id :: "int option"
  a_page_number :: int
  a_chapter :: ustring
  a_section :: ustring
  a_article_number :: ustring
  a_title :: ustring
  a_content :: ustring
  a_article_type :: article_type
  a_position_in_page :: int

text \<open>
  A row of a full-text table: its rowid and the column values that the insert trigger
  handed to the index. \<open>document_name\<close> comes from a scalar subquery and is NULL when
  the document row is absent.
\<close>

record articles_fts_row =
  af_rowid :: int
  af_article_id :: int
  af_document_name :: "ustring option"
  af_page_number :: int
  af_chapter :: ustring
  af_section :: ustring
  af_article_number :: ustring
  af_title :: ustring
  af_content :: ustring

record pages_fts_row =
  pf_rowid :: int
  pf_page_id :: int
  pf_document_name :: "ustring option"
  pf_page_number :: int
  pf_content :: ustring

text \<open>The \<open>seq_\<close> fields are the \<open>sqlite_sequence\<close> entries of the AUTOINCREMENT keys.\<close>

record database =
  tbl_documents :: "document_row list"
  tbl_pages :: "page_row list"
  tbl_articles :: "article_row list"
  tbl_articles_fts :: "articles_fts_row list"
  tbl_pages_fts :: "pages_fts_row list"
  seq_documents :: int
  seq_pages :: int
  seq_articles :: int

definition empty_database :: database where
  "empty_database =
     \<lparr>tbl_documents = [], tbl_pages = [], tbl_articles = [], tbl_articles_fts = [],
      tbl_pages_fts = [], seq_documents = 0, seq_pages = 0, seq_articles = 0\<rparr>"

text \<open>
  The connection. \<open>persisted\<close> is the committed database file; \<open>session\<close> is what the
  statements of this connection read and write. The \<open>sqlite3\<close> module opens a transaction
  before the first INSERT, UPDATE or DELETE and keeps it open until \<open>commit()\<close>, so the two
  differ exactly while a transaction is open.
\<close>

record 'db connection =
  persisted :: 'db
  session :: 'db

definition commit :: "'db connection \<Rightarrow> 'db connection" where
  "commit conn = conn\<lparr>persisted := session conn\<rparr>"

text \<open>\<open>_init_database\<close> on a new file: the tables exist and are empty.\<close>

definition init_database :: "database connection" where
  "init_database = \<lparr>persisted = empty_database, session = empty_database\<rparr>"

subsection \<open>Statements\<close>

definition max_list :: "int list \<Rightarrow> int" where
  "max_list xs = foldr max xs 0"

text \<open>
  The key of a new row of an AUTOINCREMENT table: one more than the largest key the table
  holds or ever held.
\<close>

definition next_rowid :: "int \<Rightarrow> int list \<Rightarrow> int" where
  "next_rowid seq ids = max seq (max_list ids) + 1"

text \<open>A full-text table gives a new row the rowid after the largest one it holds.\<close>

definition next_fts_rowid :: "int list \<Rightarrow> int" where
  "next_fts_rowid rowids = max_list rowids + 1"

text \<open>The values that fit SQLite's INTEGER; the module raises OverflowError for others.\<close>

definition in_int64 :: "int \<Rightarrow> bool" where
  "in_int64 i \<longleftrightarrow> - 9223372036854775808 \<le> i \<and> i \<le> 9223372036854775807"

text \<open>\<open>(SELECT name FROM documents WHERE id = new.document_id)\<close> of the insert triggers.\<close>

definition document_name_of :: "database \<Rightarrow> int \<Rightarrow> ustring option" where
  "document_name_of db document_id =
     (case filter (\<lambda>d. d_id d = document_id) (tbl_documents db) of
        [] \<Rightarrow> None
      | d # _ \<Rightarrow> Some (d_name d))"

text \<open>
  \<open>INSERT OR REPLACE INTO documents (name, title, file_path, pages_count)\<close>: the row
  that holds the unique name is deleted and a row with a new key is inserted. The result
  is \<open>cursor.lastrowid\<close> and the database.
\<close>

definition replace_document ::
  "database \<Rightarrow> ustring \<Rightarrow> ustring \<Rightarrow> ustring \<Rightarrow> int \<times> database" where
  "replace_document db document_name title file_path =
     (let document_id = next_rowid (seq_documents db) (map d_id (tbl_documents db)) in
      (document_id,
       db\<lparr>tbl_documents :=
            filter (\<lambda>d. d_name d \<noteq> document_name) (tbl_documents db) @
            [\<lparr>d_id = document_id, d_name = document_name, d_title = title,
              d_file_path = file_path, d_pages_count = 0\<rparr>],
          seq_documents := document_id\<rparr>))"

text \<open>
  \<open>DELETE FROM articles WHERE document_id = ?\<close>. For every deleted row the trigger
  \<open>articles_ad\<close> runs \<open>DELETE FROM articles_fts WHERE article_id = old.id\<close>. The full-text
  table is declared with \<open>content=articles\<close>, so it reads its columns from \<open>articles\<close>,
  which has no column \<open>article_id\<close>: the trigger fails with \<open>no such column\<close> and the
  statement is undone. The DELETE therefore succeeds only when it selects no row.
\<close>

definition delete_articles :: "database \<Rightarrow> int \<Rightarrow> error + database" where
  "delete_articles db document_id =
     (if \<exists>a \<in> set (tbl_articles db). a_document_id a = document_id
      then Inl OperationalError else Inr db)"

text \<open>\<open>DELETE FROM pages WHERE document_id = ?\<close> with the trigger \<open>pages_ad\<close>, likewise.\<close>

definition delete_pages :: "database \<Rightarrow> int \<Rightarrow> error + database" where
  "delete_pages db document_id =
     (if \<exists>p \<in> set (tbl_pages db). p_document_id p = document_id
      then Inl OperationalError else Inr db)"

text \<open>
  \<open>INSERT INTO pages (document_id, page_number, content)\<close> with the trigger \<open>pages_ai\<close>.
  Binding a page number outside INTEGER raises OverflowError; a second row for the same
  \<open>(document_id, page_number)\<close> violates the UNIQUE constraint. The result is
  \<open>cursor.lastrowid\<close> and the database.
\<close>

definition insert_page :: "database \<Rightarrow> int \<Rightarrow> page_content \<Rightarrow> error + int \<times> database" where
  "insert_page db document_id page =
     (if \<not> in_int64 (pc_page_number page) then Inl OverflowError
      else if \<exists>p \<in> set (tbl_pages db).
                p_document_id p = document_id \<and> p_page_number p = pc_page_number page
      then Inl IntegrityError
      else
        (let page_id = next_rowid (seq_pages db) (map p_id (tbl_pages db)) in
         Inr (page_id,
              db\<lparr>tbl_pages := tbl_pages db @
                   [\<lparr>p_id = page_id, p_document_id = document_id,
                     p_page_number = pc_page_number page, p_content = pc_content page\<rparr>],
                 seq_pages := page_id,
                 tbl_pages_fts := tbl_pages_fts db @
                   [\<lparr>pf_rowid = next_fts_rowid (map pf_rowid (tbl_pages_fts db)),
                     pf_page_id = page_id,
                     pf_document_name = document_name_of db document_id,
                     pf_page_number = pc_page_number page,
                     pf_content = pc_content page\<rparr>]\<rparr>)))"

text \<open>
  The loop over \<open>pages_content\<close> with the dictionary \<open>page_ids\<close>. When an insert raises,
  the rows of the earlier turns stay in the session.
\<close>

fun insert_pages ::
  "database \<Rightarrow> int \<Rightarrow> (int \<rightharpoonup> int) \<Rightarrow> page_content list \<Rightarrow> (error + (int \<rightharpoonup> int)) \<times> database" where
  "insert_pages db document_id page_ids [] = (Inr page_ids, db)"
| "insert_pages db document_id page_ids (page # ps) =
     (case insert_page db document_id page of
        Inl e \<Rightarrow> (Inl e, db)
      | Inr (page_id, db') \<Rightarrow>
          insert_pages db' document_id (page_ids(pc_page_number page \<mapsto> page_id)) ps)"

text \<open>
  \<open>INSERT INTO articles (...)\<close> with the trigger \<open>articles_ai\<close>. The integers bound here
  are a page number that \<open>insert_page\<close> bound before and an index into the page's lines.
\<close>

definition insert_article :: "database \<Rightarrow> int \<Rightarrow> int option \<Rightarrow> legal_unit \<Rightarrow> database" where
  "insert_article db document_id page_id article =
     (let article_id = next_rowid (seq_articles db) (map a_id (tbl_articles db)) in
      db\<lparr>tbl_articles := tbl_articles db @
           [\<lparr>a_id = article_id, a_document_id = document_id, a_page_id = page_id,
             a_page_number = u_page_number article, a_chapter = u_chapter article,
             a_section = u_section article, a_article_number = u_article_number article,
             a_title = u_title article, a_content = u_content article,
             a_article_type = u_article_type article,
             a_position_in_page = u_position_in_page article\<rparr>],
         seq_articles := article_id,
         tbl_articles_fts := tbl_articles_fts db @
           [\<lparr>af_rowid = next_fts_rowid (map af_rowid (tbl_articles_fts db)),
             af_article_id = article_id,
             af_document_name = document_name_of db document_id,
             af_page_number = u_page_number article, af_chapter = u_chapter article,
             af_section = u_section article,
             af_article_number = u_article_number article, af_title = u_title article,
             af_content = u_content article\<rparr>]\<rparr>)"

fun insert_articles :: "database \<Rightarrow> int \<Rightarrow> (int \<rightharpoonup> int) \<Rightarrow> legal_unit list \<Rightarrow> database" where
  "insert_articles db document_id page_ids [] = db"
| "insert_articles db document_id page_ids (article # as) =
     insert_articles
       (insert_article db document_id (page_ids (u_page_number article)) article)
       document_id page_ids as"

text \<open>\<open>UPDATE documents SET pages_count = ? WHERE id = ?\<close>.\<close>

definition update_pages_count :: "database \<Rightarrow> int \<Rightarrow> int \<Rightarrow> database" where
  "update_pages_count db max_page document_id =
     db\<lparr>tbl_documents :=
          map (\<lambda>d. if d_id d = document_id then d\<lparr>d_pages_count := max_page\<rparr> else d)
            (tbl_documents db)\<rparr>"

text \<open>\<open>max([p.page_number for p in pages_content]) if pages_content else 0\<close>.\<close>

definition max_page_number :: "page_content list \<Rightarrow> int" where
  "max_page_number ps =
     (case ps of [] \<Rightarrow> 0 | p # ps' \<Rightarrow> foldl max (pc_page_number p) (map pc_page_number ps'))"

subsection \<open>\<open>index_document_enhanced\<close>\<close>

text \<open>
  The result is the returned count or the exception raised, and the connection afterwards.
  No path of the source rolls back: when a statement or the parser raises, the session keeps
  what the earlier statements wrote, and only the last line commits.
\<close>

definition index_document_enhanced ::
  "filesystem \<Rightarrow> database connection \<Rightarrow> ustring \<Rightarrow> ustring \<Rightarrow> ustring \<Rightarrow>
     (error + int) \<times> database connection" where
  "index_document_enhanced fs conn file_path document_name title =
     (if \<not> path_exists fs file_path then (Inl FileNotFoundError, conn)
      else
        (case replace_document (session conn) document_name title file_path of
           (document_id, db1) \<Rightarrow>
        (case delete_articles db1 document_id of
           Inl e \<Rightarrow> (Inl e, conn\<lparr>session := db1\<rparr>)
         | Inr db2 \<Rightarrow>
        (case delete_pages db2 document_id of
           Inl e \<Rightarrow> (Inl e, conn\<lparr>session := db2\<rparr>)
         | Inr db3 \<Rightarrow>
        (case parse_markdown_document_enhanced fs file_path document_name of
           Inl e \<Rightarrow> (Inl e, conn\<lparr>session := db3\<rparr>)
         | Inr (page_list, article_list) \<Rightarrow>
        (case insert_pages db3 document_id Map.empty page_list of
           (Inl e, db4) \<Rightarrow> (Inl e, conn\<lparr>session := db4\<rparr>)
         | (Inr page_ids, db4) \<Rightarrow>
             (let db5 = insert_articles db4 document_id page_ids article_list;
                  db6 = update_pages_count db5 (max_page_number page_list) document_id
              in (Inr (int (length article_list)), commit (conn\<lparr>session := db6\<rparr>)))))))))"

section \<open>Query engine\<close>

subsection \<open>The text of an FTS5 query\<close>

text \<open>
  Both engines hand the user's query to \<open>MATCH\<close> as it is, so the query is read in the
  FTS5 query language. Its first stage, the split into tokens, is fixed and small: blanks
  are skipped, ten punctuation characters are tokens of their own, a double quote starts a
  string that must be closed, and any other character must be a bareword character (a
  letter, a digit, \<open>_\<close>, the character 26 or anything beyond ASCII). A NUL ends the text.
  \<open>None\<close> is the syntax error of this stage.
\<close>

datatype fts5_token =
    FTS5_LP | FTS5_RP | FTS5_LCP | FTS5_RCP | FTS5_COLON | FTS5_COMMA
  | FTS5_PLUS | FTS5_STAR | FTS5_MINUS | FTS5_CARET
  | FTS5_STRING ustring | FTS5_OR | FTS5_NOT | FTS5_AND

definition fts5_isspace :: "nat \<Rightarrow> bool" where
  "fts5_isspace c \<longleftrightarrow> c = 32 \<or> c = 9 \<or> c = 10 \<or> c = 13"

definition fts5_is_bareword :: "nat \<Rightarrow> bool" where
  "fts5_is_bareword c \<longleftrightarrow>
     c \<ge> 128 \<or> (48 \<le> c \<and> c \<le> 57) \<or> (65 \<le> c \<and> c \<le> 90) \<or> (97 \<le> c \<and> c \<le> 122)
     \<or> c = 95 \<or> c = 26"

definition fts5_punctuation :: "nat \<Rightarrow> fts5_token option" where
  "fts5_punctuation c =
     (if c = 40 then Some FTS5_LP else if c = 41 then Some FTS5_RP
      else if c = 123 then Some FTS5_LCP else if c = 125 then Some FTS5_RCP
      else if c = 58 then Some FTS5_COLON else if c = 44 then Some FTS5_COMMA
      else if c = 43 then Some FTS5_PLUS else if c = 42 then Some FTS5_STAR
      else if c = 45 then Some FTS5_MINUS else if c = 94 then Some FTS5_CARET
      else None)"

text \<open>The words OR, NOT and AND: 79 82, 78 79 84 and 65 78 68.\<close>

definition fts5_word :: "ustring \<Rightarrow> fts5_token" where
  "fts5_word w =
     (if w = [79, 82] then FTS5_OR else if w = [78, 79, 84] then FTS5_NOT
      else if w = [65, 78, 68] then FTS5_AND else FTS5_STRING w)"

text \<open>
  The inside of a quoted string, after the opening quote: the token read so far and the
  text after the closing quote. A doubled quote stays inside the string.
\<close>

fun fts5_quoted :: "ustring \<Rightarrow> ustring \<Rightarrow> (ustring \<times> ustring) option" where
  "fts5_quoted tok [] = None"
| "fts5_quoted tok [c] = (if c = 34 then Some (tok @ [34], []) else None)"
| "fts5_quoted tok (c # d # z) =
     (if c = 34 then
        (if d = 34 then fts5_quoted (tok @ [34, 34]) z else Some (tok @ [34], d # z))
      else if c = 0 then None
      else fts5_quoted (tok @ [c]) (d # z))"

lemma fts5_quoted_shorter:
  "fts5_quoted tok z = Some (tok', z') \<Longrightarrow> length z' \<le> length z"
  by (induction tok z rule: fts5_quoted.induct) (auto split: if_splits)

function fts5_tokens :: "ustring \<Rightarrow> fts5_token list option" where
  "fts5_tokens [] = Some []"
| "fts5_tokens (c # z) =
     (if fts5_isspace c then fts5_tokens z
      else if c = 0 then Some []
      else
        (case fts5_punctuation c of
           Some t \<Rightarrow> map_option (Cons t) (fts5_tokens z)
         | None \<Rightarrow>
             if c = 34 then
               (case fts5_quoted [34] z of
                  None \<Rightarrow> None
                | Some (tok, z') \<Rightarrow> map_option (Cons (FTS5_STRING tok)) (fts5_tokens z'))
             else if \<not> fts5_is_bareword c then None
             else map_option (Cons (fts5_word (c # takeWhile fts5_is_bareword z)))
                    (fts5_tokens (dropWhile fts5_is_bareword z))))"
  by pat_completeness auto
termination
proof (relation "measure length")
qed (auto dest: fts5_quoted_shorter simp: less_Suc_eq_le length_dropWhile_le)

text \<open>
  The rest of the engine is SQLite's and not the repository's: the grammar and the column
  names decide whether a token sequence is a query, the tokenizer decides which indexed
  rows a query matches, and \<open>bm25\<close> gives the rank by which the rows are ordered. They are
  parameters. The grammar has no empty query, so no tokens is a syntax error whatever the
  parameters say.
\<close>

record ('row, 'rank) fts5_engine =
  fts5_accepts :: "fts5_token list \<Rightarrow> bool"
  fts5_matches :: "fts5_token list \<Rightarrow> 'row \<Rightarrow> bool"
  fts5_rank :: "fts5_token list \<Rightarrow> 'row list \<Rightarrow> 'row \<Rightarrow> 'rank"

definition fts5_match_expr :: "('row, 'rank) fts5_engine \<Rightarrow> ustring \<Rightarrow> error + fts5_token list" where
  "fts5_match_expr E query =
     (case fts5_tokens query of
        None \<Rightarrow> Inl OperationalError
      | Some toks \<Rightarrow>
          if toks = [] \<or> \<not> fts5_accepts E toks then Inl OperationalError else Inr toks)"

text \<open>\<open>LIMIT ?\<close>: a negative limit is no limit.\<close>

definition apply_limit :: "int \<Rightarrow> 'a list \<Rightarrow> 'a list" where
  "apply_limit limit rows = (if limit < 0 then rows else take (nat limit) rows)"

subsection \<open>Highlighting: \<open>_highlight_matches\<close>\<close>

text \<open>
  \<open>re.compile(re.escape(word), re.IGNORECASE)\<close> matches the word character by character.
  Between two ASCII characters the comparison is that of their lower-case forms. For the
  other pairs it follows the case tables of the Unicode database, and a replacement string
  with a backslash is a template that the \<open>re\<close> module compiles (and may reject); both
  are parameters: \<open>re_ignorecase\<close> says whether a pattern character matches a text
  character, \<open>re_template\<close> gives the replacement for a matched text.
\<close>

record re_module =
  re_ignorecase :: "nat \<Rightarrow> nat \<Rightarrow> bool"
  re_template :: "ustring \<Rightarrow> error + (ustring \<Rightarrow> ustring)"

definition ascii_lower :: "nat \<Rightarrow> nat" where
  "ascii_lower c = (if 65 \<le> c \<and> c \<le> 90 then c + 32 else c)"

definition ichar_eq :: "re_module \<Rightarrow> nat \<Rightarrow> nat \<Rightarrow> bool" where
  "ichar_eq M p c \<longleftrightarrow>
     (if p < 128 \<and> c < 128 then ascii_lower p = ascii_lower c else re_ignorecase M p c)"

text \<open>The word matches at the start of the text.\<close>

fun imatch_here :: "re_module \<Rightarrow> ustring \<Rightarrow> ustring \<Rightarrow> bool" where
  "imatch_here M [] text = True"
| "imatch_here M (p # ps) [] = False"
| "imatch_here M (p # ps) (c # cs) \<longleftrightarrow> ichar_eq M p c \<and> imatch_here M ps cs"

text \<open>
  \<open>pattern.sub(repl, text)\<close> for the pattern of a word of at least one character: the
  matches are taken from the left and do not overlap, and \<open>repl\<close> maps a matched text to
  what replaces it.
\<close>

function re_sub :: "re_module \<Rightarrow> ustring \<Rightarrow> (ustring \<Rightarrow> ustring) \<Rightarrow> ustring \<Rightarrow> ustring" where
  "re_sub M word repl [] = []"
| "re_sub M word repl (c # cs) =
     (if imatch_here M word (c # cs)
      then repl (take (length word) (c # cs)) @ re_sub M word repl (drop (length word - 1) cs)
      else c # re_sub M word repl cs)"
  by pat_completeness auto
termination
proof (relation "measure (\<lambda>(M, word, repl, text). length text)")
qed auto

text \<open>A replacement string without a backslash is inserted as it is.\<close>

definition compile_repl :: "re_module \<Rightarrow> ustring \<Rightarrow> error + (ustring \<Rightarrow> ustring)" where
  "compile_repl M template =
     (if 92 \<in> set template then re_template M template else Inr (\<lambda>matched. template))"

text \<open>The loop over the words of the query; \<open>pre\<close> and \<open>post\<close> are the two halves of the marker.\<close>

fun highlight_words ::
  "re_module \<Rightarrow> ustring \<Rightarrow> ustring \<Rightarrow> ustring list \<Rightarrow> ustring \<Rightarrow> error + ustring" where
  "highlight_words M pre post [] highlighted_text = Inr highlighted_text"
| "highlight_words M pre post (word # words) highlighted_text =
     (if length word > 2 then
        (case compile_repl M (pre @ word @ post) of
           Inl e \<Rightarrow> Inl e
         | Inr repl \<Rightarrow>
             highlight_words M pre post words (re_sub M word repl highlighted_text))
      else highlight_words M pre post words highlighted_text)"

text \<open>The marker of the enhanced engine, \<open><mark class="highlight">\<close> and \<open></mark>\<close>.\<close>

definition mark_open :: ustring where
  "mark_open = [60, 109, 97, 114, 107, 32, 99, 108, 97, 115, 115, 61, 34, 104, 105, 103, 104,
     108, 105, 103, 104, 116, 34, 62]"

definition mark_close :: ustring where
  "mark_close = [60, 47, 109, 97, 114, 107, 62]"

definition highlight_matches :: "re_module \<Rightarrow> ustring \<Rightarrow> ustring \<Rightarrow> error + ustring" where
  "highlight_matches M text query = highlight_words M mark_open mark_close (py_split query) text"

subsection \<open>\<open>search_enhanced\<close>\<close>

record 'rank search_result =
  r_id :: int
  r_document_id :: int
  r_page_id :: "int option"
  r_document_name :: ustring
  r_document_title :: ustring
  r_page_number :: int
  r_chapter :: ustring
  r_section :: ustring
  r_article_number :: ustring
  r_title :: ustring
  r_content :: ustring
  r_article_type :: article_type
  r_position_in_page :: int
  r_rank :: 'rank
  r_highlighted_content :: ustring

text \<open>
  The SELECT: the matching rows of the index, joined on \<open>articles_fts.rowid = a.id\<close> and
  \<open>a.document_id = d.id\<close>, in the order of their rank. Rows of equal rank keep the order
  of the index.
\<close>

definition search_rows ::
  "(articles_fts_row, 'rank::linorder) fts5_engine \<Rightarrow> database \<Rightarrow> fts5_token list \<Rightarrow>
     (articles_fts_row \<times> article_row \<times> document_row) list" where
  "search_rows E db toks =
     sort_key (\<lambda>(f, a, d). fts5_rank E toks (tbl_articles_fts db) f)
       [(f, a, d).
          f \<leftarrow> tbl_articles_fts db, fts5_matches E toks f,
          a \<leftarrow> tbl_articles db, a_id a = af_rowid f,
          d \<leftarrow> tbl_documents db, d_id d = a_document_id a]"

definition result_of ::
  "(articles_fts_row, 'rank) fts5_engine \<Rightarrow> database \<Rightarrow> fts5_token list \<Rightarrow>
     articles_fts_row \<times> article_row \<times> document_row \<Rightarrow> ustring \<Rightarrow> 'rank search_result" where
  "result_of E db toks row highlighted =
     (case row of (f, a, d) \<Rightarrow>
        \<lparr>r_id = a_id a, r_document_id = a_document_id a, r_page_id = a_page_id a,
         r_document_name = d_name d, r_document_title = d_title d,
         r_page_number = a_page_number a, r_chapter = a_chapter a,
         r_section = a_section a, r_article_number = a_article_number a,
         r_title = a_title a, r_content = a_content a,
         r_article_type = a_article_type a,
         r_position_in_page = a_position_in_page a,
         r_rank = fts5_rank E toks (tbl_articles_fts db) f,
         r_highlighted_content = highlighted\<rparr>)"

text \<open>The loop over \<open>cursor.fetchall()\<close>; the first failing highlight ends it.\<close>

fun highlight_rows ::
  "(articles_fts_row, 'rank) fts5_engine \<Rightarrow> re_module \<Rightarrow> database \<Rightarrow> fts5_token list \<Rightarrow>
     ustring \<Rightarrow> (articles_fts_row \<times> article_row \<times> document_row) list \<Rightarrow>
     error + 'rank search_result list" where
  "highlight_rows E M db toks query [] = Inr []"
| "highlight_rows E M db toks query (row # rows) =
     (case highlight_matches M (a_content (fst (snd row))) query of
        Inl e \<Rightarrow> Inl e
      | Inr highlighted \<Rightarrow>
          (case highlight_rows E M db toks query rows of
             Inl e \<Rightarrow> Inl e
           | Inr results \<Rightarrow> Inr (result_of E db toks row highlighted # results)))"

definition search_enhanced ::
  "(articles_fts_row, 'rank::linorder) fts5_engine \<Rightarrow> re_module \<Rightarrow> database connection \<Rightarrow>
     ustring \<Rightarrow>
     int \<Rightarrow> error + 'rank search_result list" where
  "search_enhanced E M conn query limit =
     (if \<not> in_int64 limit then Inl OverflowError
      else
        (case fts5_match_expr E query of
           Inl e \<Rightarrow> Inl e
         | Inr toks \<Rightarrow>
             highlight_rows E M (session conn) toks query
               (apply_limit limit (search_rows E (session conn) toks))))"

section \<open>The first engine: \<open>LegalSearchEngine\<close>\<close>

text \<open>
  \<open>legal_search.py\<close> keeps documents and articles only. Its \<open>articles\<close> table has no
  page key and no position, and its index has no page number.
\<close>

record basic_article_row =
  ba_id :: int
  ba_document_id :: int
  ba_page_number :: int
  ba_chapter :: ustring
  ba_section :: ustring
  ba_article_number :: ustring
  ba_title :: ustring
  ba_content :: ustring
  ba_article_type :: article_type

record basic_fts_row =
  bf_rowid :: int
  bf_article_id :: int
  bf_document_name :: "ustring option"
  bf_chapter :: ustring
  bf_section :: ustring
  bf_article_number :: ustring
  bf_title :: ustring
  bf_content :: ustring

record basic_database =
  btbl_documents :: "document_row list"
  btbl_articles :: "basic_article_row list"
  btbl_articles_fts :: "basic_fts_row list"
  bseq_documents :: int
  bseq_articles :: int

definition basic_empty_database :: basic_database where
  "basic_empty_database =
     \<lparr>btbl_documents = [], btbl_articles = [], btbl_articles_fts = [],
      bseq_documents = 0, bseq_articles = 0\<rparr>"

definition basic_init_database :: "basic_database connection" where
  "basic_init_database = \<lparr>persisted = basic_empty_database, session = basic_empty_database\<rparr>"

subsection \<open>\<open>parse_markdown_document\<close> and \<open>index_document\<close>\<close>

text \<open>
  \<open>parse_markdown_document\<close> is the loop of \<open>parse_markdown_document_enhanced\<close>, line for
  line, without \<open>pages_content\<close> and without \<open>position_in_page\<close>; its \<open>LegalArticle\<close> has
  the other fields of the unit. It is modelled by the units of the enhanced parser, whose
  position nothing here reads.
\<close>

definition parse_markdown_document ::
  "filesystem \<Rightarrow> ustring \<Rightarrow> ustring \<Rightarrow> error + legal_unit list" where
  "parse_markdown_document fs file_path document_name =
     (case parse_markdown_document_enhanced fs file_path document_name of
        Inl e \<Rightarrow> Inl e
      | Inr (page_list, article_list) \<Rightarrow> Inr article_list)"

definition basic_document_name_of :: "basic_database \<Rightarrow> int \<Rightarrow> ustring option" where
  "basic_document_name_of db document_id =
     (case filter (\<lambda>d. d_id d = document_id) (btbl_documents db) of
        [] \<Rightarrow> None
      | d # _ \<Rightarrow> Some (d_name d))"

definition basic_replace_document ::
  "basic_database \<Rightarrow> ustring \<Rightarrow> ustring \<Rightarrow> ustring \<Rightarrow> int \<times> basic_database" where
  "basic_replace_document db document_name title file_path =
     (let document_id = next_rowid (bseq_documents db) (map d_id (btbl_documents db)) in
      (document_id,
       db\<lparr>btbl_documents :=
            filter (\<lambda>d. d_name d \<noteq> document_name) (btbl_documents db) @
            [\<lparr>d_id = document_id, d_name = document_name, d_title = title,
              d_file_path = file_path, d_pages_count = 0\<rparr>],
          bseq_documents := document_id\<rparr>))"

text \<open>The DELETE and its trigger \<open>articles_ad\<close>, which fails as in the enhanced engine.\<close>

definition basic_delete_articles :: "basic_database \<Rightarrow> int \<Rightarrow> error + basic_database" where
  "basic_delete_articles db document_id =
     (if \<exists>a \<in> set (btbl_articles db). ba_document_id a = document_id
      then Inl OperationalError else Inr db)"

text \<open>The INSERT and its trigger \<open>articles_ai\<close>. The page number is bound here first.\<close>

definition basic_insert_article ::
  "basic_database \<Rightarrow> int \<Rightarrow> legal_unit \<Rightarrow> error + basic_database" where
  "basic_insert_article db document_id article =
     (if \<not> in_int64 (u_page_number article) then Inl OverflowError
      else
        (let article_id = next_rowid (bseq_articles db) (map ba_id (btbl_articles db)) in
         Inr (db\<lparr>btbl_articles := btbl_articles db @
                   [\<lparr>ba_id = article_id, ba_document_id = document_id,
                     ba_page_number = u_page_number article,
                     ba_chapter = u_chapter article, ba_section = u_section article,
                     ba_article_number = u_article_number article,
                     ba_title = u_title article, ba_content = u_content article,
                     ba_article_type = u_article_type article\<rparr>],
                 bseq_articles := article_id,
                 btbl_articles_fts := btbl_articles_fts db @
                   [\<lparr>bf_rowid = next_fts_rowid (map bf_rowid (btbl_articles_fts db)),
                     bf_article_id = article_id,
                     bf_document_name = basic_document_name_of db document_id,
                     bf_chapter = u_chapter article, bf_section = u_section article,
                     bf_article_number = u_article_number article,
                     bf_title = u_title article, bf_content = u_content article\<rparr>]\<rparr>)))"

fun basic_insert_articles ::
  "basic_database \<Rightarrow> int \<Rightarrow> legal_unit list \<Rightarrow> error option \<times> basic_database" where
  "basic_insert_articles db document_id [] = (None, db)"
| "basic_insert_articles db document_id (article # as) =
     (case basic_insert_article db document_id article of
        Inl e \<Rightarrow> (Some e, db)
      | Inr db' \<Rightarrow> basic_insert_articles db' document_id as)"

definition basic_update_pages_count :: "basic_database \<Rightarrow> int \<Rightarrow> int \<Rightarrow> basic_database" where
  "basic_update_pages_count db max_page document_id =
     db\<lparr>btbl_documents :=
          map (\<lambda>d. if d_id d = document_id then d\<lparr>d_pages_count := max_page\<rparr> else d)
            (btbl_documents db)\<rparr>"

text \<open>\<open>max([a.page_number for a in articles]) if articles else 0\<close>.\<close>

definition max_unit_page :: "legal_unit list \<Rightarrow> int" where
  "max_unit_page us =
     (case us of [] \<Rightarrow> 0 | u # us' \<Rightarrow> foldl max (u_page_number u) (map u_page_number us'))"

definition index_document ::
  "filesystem \<Rightarrow> basic_database connection \<Rightarrow> ustring \<Rightarrow> ustring \<Rightarrow> ustring \<Rightarrow>
     (error + int) \<times> basic_database connection" where
  "index_document fs conn file_path document_name title =
     (if \<not> path_exists fs file_path then (Inl FileNotFoundError, conn)
      else
        (case basic_replace_document (session conn) document_name title file_path of
           (document_id, db1) \<Rightarrow>
        (case basic_delete_articles db1 document_id of
           Inl e \<Rightarrow> (Inl e, conn\<lparr>session := db1\<rparr>)
         | Inr db2 \<Rightarrow>
        (case parse_markdown_document fs file_path document_name of
           Inl e \<Rightarrow> (Inl e, conn\<lparr>session := db2\<rparr>)
         | Inr article_list \<Rightarrow>
        (case basic_insert_articles db2 document_id article_list of
           (Some e, db3) \<Rightarrow> (Inl e, conn\<lparr>session := db3\<rparr>)
         | (None, db3) \<Rightarrow>
             (let db4 = basic_update_pages_count db3 (max_unit_page article_list) document_id
              in (Inr (int (length article_list)), commit (conn\<lparr>session := db4\<rparr>))))))))"

subsection \<open>\<open>search\<close>\<close>

record 'rank basic_result =
  br_id :: int
  br_document_id :: int
  br_document_name :: ustring
  br_document_title :: ustring
  br_page_number :: int
  br_chapter :: ustring
  br_section :: ustring
  br_article_number :: ustring
  br_title :: ustring
  br_content :: ustring
  br_article_type :: article_type
  br_rank :: 'rank
  br_highlighted_content :: ustring

text \<open>The marker of this engine is \<open>**\<close> on both sides.\<close>

definition basic_highlight_matches :: "re_module \<Rightarrow> ustring \<Rightarrow> ustring \<Rightarrow> error + ustring" where
  "basic_highlight_matches M text query =
     highlight_words M [42, 42] [42, 42] (py_split query) text"

definition basic_search_rows ::
  "(basic_fts_row, 'rank::linorder) fts5_engine \<Rightarrow> basic_database \<Rightarrow> fts5_token list \<Rightarrow>
     (basic_fts_row \<times> basic_article_row \<times> document_row) list" where
  "basic_search_rows E db toks =
     sort_key (\<lambda>(f, a, d). fts5_rank E toks (btbl_articles_fts db) f)
       [(f, a, d).
          f \<leftarrow> btbl_articles_fts db, fts5_matches E toks f,
          a \<leftarrow> btbl_articles db, ba_id a = bf_rowid f,
          d \<leftarrow> btbl_documents db, d_id d = ba_document_id a]"

definition basic_result_of ::
  "(basic_fts_row, 'rank) fts5_engine \<Rightarrow> basic_database \<Rightarrow> fts5_token list \<Rightarrow>
     basic_fts_row \<times> basic_article_row \<times> document_row \<Rightarrow> ustring \<Rightarrow> 'rank basic_result" where
  "basic_result_of E db toks row highlighted =
     (case row of (f, a, d) \<Rightarrow>
        \<lparr>br_id = ba_id a, br_document_id = ba_document_id a,
         br_document_name = d_name d, br_document_title = d_title d,
         br_page_number = ba_page_number a, br_chapter = ba_chapter a,
         br_section = ba_section a, br_article_number = ba_article_number a,
         br_title = ba_title a, br_content = ba_content a,
         br_article_type = ba_article_type a,
         br_rank = fts5_rank E toks (btbl_articles_fts db) f,
         br_highlighted_content = highlighted\<rparr>)"

fun basic_highlight_rows ::
  "(basic_fts_row, 'rank) fts5_engine \<Rightarrow> re_module \<Rightarrow> basic_database \<Rightarrow> fts5_token list \<Rightarrow>
     ustring \<Rightarrow> (basic_fts_row \<times> basic_article_row \<times> document_row) list \<Rightarrow>
     error + 'rank basic_result list" where
  "basic_highlight_rows E M db toks query [] = Inr []"
| "basic_highlight_rows E M db toks query (row # rows) =
     (case basic_highlight_matches M (ba_content (fst (snd row))) query of
        Inl e \<Rightarrow> Inl e
      | Inr highlighted \<Rightarrow>
          (case basic_highlight_rows E M db toks query rows of
             Inl e \<Rightarrow> Inl e
           | Inr results \<Rightarrow> Inr (basic_result_of E db toks row highlighted # results)))"

text \<open>\<open>search\<close> strips the query and answers a blank one itself, with the empty list.\<close>

definition search ::
  "(basic_fts_row, 'rank::linorder) fts5_engine \<Rightarrow> re_module \<Rightarrow> basic_database connection \<Rightarrow>
     ustring \<Rightarrow> int \<Rightarrow> error + 'rank basic_result list" where
  "search E M conn query limit =
     (let clean_query = py_strip query in
      if clean_query = [] then Inr []
      else if \<not> in_int64 limit then Inl OverflowError
      else
        (case fts5_match_expr E clean_query of
           Inl e \<Rightarrow> Inl e
         | Inr toks \<Rightarrow>
             basic_highlight_rows E M (session conn) toks clean_query
               (apply_limit limit (basic_search_rows E (session conn) toks))))"

section \<open>Notions used in the statements\<close>

subsection \<open>Carried markers\<close>

text \<open>
  The most recent line of \<open>ls\<close> that begins with the keyword, or \<open>init\<close> when there is
  none; with the empty string for \<open>init\<close> it is the marker a document has shown so far.
\<close>

definition carried :: "ustring \<Rightarrow> ustring \<Rightarrow> ustring list \<Rightarrow> ustring" where
  "carried kw init ls =
     (case filter (\<lambda>l. startswith l kw) ls of [] \<Rightarrow> init | m # ms \<Rightarrow> last (m # ms))"

definition latest_marker :: "ustring \<Rightarrow> ustring list \<Rightarrow> ustring" where
  "latest_marker kw ls = carried kw [] ls"

text \<open>The stripped lines of one page section and of a list of them, in document order.\<close>

definition stripped_lines :: "ustring \<Rightarrow> ustring list" where
  "stripped_lines text = map (\<lambda>il. py_strip (snd il)) (page_lines (py_strip text))"

definition document_lines :: "(ustring \<times> ustring) list \<Rightarrow> ustring list" where
  "document_lines secs = concat (map (\<lambda>sec. stripped_lines (snd sec)) secs)"

subsection \<open>Example texts\<close>

text \<open>The line \<open>## Page 1\<close> with its newline.\<close>

definition page_1_marker :: ustring where
  "page_1_marker = [35, 35, 32, 80, 97, 103, 101, 32, 49, 10]"

text \<open>Scenario A: a chapter line, a section line, the marker of article 1 and one line of body.\<close>

definition scenario_a_text :: ustring where
  "scenario_a_text =
     [1575, 1604, 1576, 1575, 1576, 32, 1575, 1604, 1571, 1608, 1604, 10,
      1575, 1604, 1601, 1589, 1604, 32, 1575, 1604, 1571, 1608, 1604, 10,
      1575, 1604, 1605, 1575, 1583, 1577, 32, 40, 49, 41, 10,
      1606, 1589, 32, 1575, 1604, 1605, 1575, 1583, 1577, 32, 1575, 1604, 1571, 1608, 1604]"

text \<open>Scenario B: one line of 32 characters. Scenario C: a line of 7 characters.\<close>

definition scenario_b_line :: ustring where
  "scenario_b_line =
     [1607, 1584, 1575, 32, 1606, 1589, 32, 1593, 1575, 1605, 32, 1591, 1608, 1610, 1604, 32,
      1610, 1578, 1580, 1575, 1608, 1586, 32, 1593, 1588, 1585, 1577, 32, 1571, 1581, 1585,
      1601]"

definition short_line :: ustring where
  "short_line = [1606, 1589, 32, 1602, 1589, 1610, 1585]"

text \<open>The markers of article 1 and of article 2, and a line of body.\<close>

definition article_1_marker :: ustring where
  "article_1_marker = [1575, 1604, 1605, 1575, 1583, 1577, 32, 40, 49, 41]"

definition article_2_marker :: ustring where
  "article_2_marker = [1575, 1604, 1605, 1575, 1583, 1577, 32, 40, 50, 41]"

definition body_line :: ustring where
  "body_line = [1606, 1589, 32, 1575, 1604, 1605, 1575, 1583, 1577]"

text \<open>
  A first page with two chapter lines, the marker of article 1 and a line of body, and a
  second page with a section line and one more line.
\<close>

definition chapter_1_line :: ustring where
  "chapter_1_line = [1575, 1604, 1576, 1575, 1576, 32, 1575, 1604, 1571, 1608, 1604]"

definition chapter_2_line :: ustring where
  "chapter_2_line = [1575, 1604, 1576, 1575, 1576, 32, 1575, 1604, 1579, 1575, 1606, 1610]"

definition section_1_line :: ustring where
  "section_1_line = [1575, 1604, 1601, 1589, 1604, 32, 1575, 1604, 1571, 1608, 1604]"

definition first_page_text :: ustring where
  "first_page_text =
     chapter_1_line @ [10] @ chapter_2_line @ [10] @ article_1_marker @ [10] @ body_line"

definition second_page_text :: ustring where
  "second_page_text = section_1_line @ [10] @ [1578, 1578, 1605, 1577, 32, 1575, 1604, 1606, 1589]"

subsection \<open>Example parameters\<close>

text \<open>
  Instances of the parameters for the examples. \<open>plain_re\<close> compares characters beyond
  ASCII exactly, which is what \<open>re.IGNORECASE\<close> does for characters without case such as
  the Arabic letters, and accepts no template. \<open>match_all\<close> accepts every token sequence,
  matches every row and gives every row the rank 0. The examples that use them are decided
  before either is asked.
\<close>

definition plain_re :: re_module where
  "plain_re = \<lparr>re_ignorecase = (=), re_template = (\<lambda>template. Inl RegexError)\<rparr>"

definition match_all :: "('row, int) fts5_engine" where
  "match_all =
     \<lparr>fts5_accepts = (\<lambda>toks. True), fts5_matches = (\<lambda>toks row. True),
      fts5_rank = (\<lambda>toks rows row. 0)\<rparr>"

text \<open>
  \<open>words_engine\<close> is an engine for the examples that need one that tells rows apart: it
  accepts every token sequence, a row matches when each word of the query occurs in the
  row's content, and the rank is the rowid. It is given the two columns it reads.
\<close>

definition contains_word :: "ustring \<Rightarrow> ustring \<Rightarrow> bool" where
  "contains_word content w \<longleftrightarrow>
     list_ex (\<lambda>i. take (length w) (drop i content) = w) [0..<Suc (length content)]"

definition words_engine :: "('row \<Rightarrow> ustring) \<Rightarrow> ('row \<Rightarrow> int) \<Rightarrow> ('row, int) fts5_engine" where
  "words_engine content_of rowid_of =
     \<lparr>fts5_accepts = (\<lambda>toks. True),
      fts5_matches = (\<lambda>toks row.
         \<forall>tok \<in> set toks.
           (case tok of FTS5_STRING w \<Rightarrow> contains_word (content_of row) w | _ \<Rightarrow> True)),
      fts5_rank = (\<lambda>toks rows row. rowid_of row)\<rparr>"

text \<open>The document of Scenario A, indexed into a new database by either engine.\<close>

definition scenario_a_document :: ustring where
  "scenario_a_document = page_1_marker @ scenario_a_text"

definition scenario_a_indexed :: "database connection" where
  "scenario_a_indexed =
     snd (index_document_enhanced (\<lambda>path. Text scenario_a_document) init_database
            [100, 111, 99] [108, 97, 119] [])"

definition scenario_a_basic_indexed :: "basic_database connection" where
  "scenario_a_basic_indexed =
     snd (index_document (\<lambda>path. Text scenario_a_document) basic_init_database
            [100, 111, 99] [108, 97, 119] [])"

subsection \<open>States of the database\<close>

text \<open>
  What holds of the database of a connection that started from a new file: the pages and
  articles refer to documents whose key has been issued, and the index of the articles has
  issued as many rowids as the table of the articles has issued keys.
\<close>

definition last_article_id :: "database \<Rightarrow> int" where
  "last_article_id db = max (seq_articles db) (max_list (map a_id (tbl_articles db)))"

definition wellformed :: "database \<Rightarrow> bool" where
  "wellformed db \<longleftrightarrow>
     (\<forall>p \<in> set (tbl_pages db). p_document_id p \<le> seq_documents db) \<and>
     (\<forall>a \<in> set (tbl_articles db). a_document_id a \<le> seq_documents db) \<and>
     max_list (map af_rowid (tbl_articles_fts db)) = last_article_id db"

text \<open>The row that the trigger \<open>articles_ai\<close> writes for an article, under its own rowid.\<close>

definition fts_row_of :: "ustring option \<Rightarrow> article_row \<Rightarrow> articles_fts_row" where
  "fts_row_of document_name a =
     \<lparr>af_rowid = a_id a, af_article_id = a_id a, af_document_name = document_name,
      af_page_number = a_page_number a, af_chapter = a_chapter a,
      af_section = a_section a, af_article_number = a_article_number a,
      af_title = a_title a, af_content = a_content a\<rparr>"

text \<open>The page numbers that a document has in the table of the pages.\<close>

definition page_numbers_of :: "database \<Rightarrow> int \<Rightarrow> int set" where
  "page_numbers_of db document_id =
     set (map p_page_number (filter (\<lambda>p. p_document_id p = document_id) (tbl_pages db)))"

text \<open>The key that the next \<open>INSERT OR REPLACE INTO documents\<close> issues.\<close>

definition next_document_id :: "database \<Rightarrow> int" where
  "next_document_id db = next_rowid (seq_documents db) (map d_id (tbl_documents db))"

text \<open>
  Two documents of two pages each with one line: in the first both markers are
  \<open>## Page 1\<close>, in the second they are \<open>## Page 7\<close> and \<open>## Page 3\<close>.
\<close>

definition repeated_page_document :: ustring where
  "repeated_page_document =
     page_1_marker @ body_line @ [10] @ page_1_marker @
     [1578, 1578, 1605, 1577, 32, 1575, 1604, 1606, 1589]"

definition unordered_page_document :: ustring where
  "unordered_page_document =
     [35, 35, 32, 80, 97, 103, 101, 32, 55, 10] @ body_line @ [10] @
     [35, 35, 32, 80, 97, 103, 101, 32, 51, 10] @
     [1578, 1578, 1605, 1577, 32, 1575, 1604, 1606, 1589]"

text \<open>
  A failed call and the next commit: on the connection that indexed the document of
  Scenario A, the same name is indexed again from a file that is not UTF-8, and then
  another document is indexed under another name.
\<close>

definition failed_reindex :: "(error + int) \<times> database connection" where
  "failed_reindex =
     index_document_enhanced (\<lambda>path. Undecodable) scenario_a_indexed
       [100, 111, 99] [108, 97, 119] []"

definition after_next_commit :: "database connection" where
  "after_next_commit =
     snd (index_document_enhanced (\<lambda>path. Text unordered_page_document) (snd failed_reindex)
            [100, 111, 99, 50] [111, 116, 104, 101, 114] [])"

text \<open>The key and the page count of the documents with a name.\<close>

definition document_entry :: "database \<Rightarrow> ustring \<Rightarrow> (int \<times> int) list" where
  "document_entry db document_name =
     map (\<lambda>d. (d_id d, d_pages_count d))
       (filter (\<lambda>d. d_name d = document_name) (tbl_documents db))"

subsection \<open>The units of a document\<close>

text \<open>An article row holds the fields of a unit of the segmenter.\<close>

definition same_unit :: "article_row \<Rightarrow> legal_unit \<Rightarrow> bool" where
  "same_unit a u \<longleftrightarrow>
     a_page_number a = u_page_number u \<and> a_chapter a = u_chapter u \<and>
     a_section a = u_section u \<and> a_article_number a = u_article_number u \<and>
     a_title a = u_title u \<and> a_content a = u_content u \<and>
     a_article_type a = u_article_type u \<and> a_position_in_page a = u_position_in_page u"

text \<open>
  The articles that the join of \<open>search_enhanced\<close> can reach for a document name: those
  whose document key is the key of a document row with that name.
\<close>

definition units_of :: "database \<Rightarrow> ustring \<Rightarrow> article_row list" where
  "units_of db document_name =
     filter (\<lambda>a. \<exists>d \<in> set (tbl_documents db). d_name d = document_name \<and> d_id d = a_document_id a)
       (tbl_articles db)"

text \<open>
  The document of Scenario B, one page with the one long line, and the connection that
  indexed the document of Scenario A and then, under the same name, this one.
\<close>

definition scenario_b_document :: ustring where
  "scenario_b_document = page_1_marker @ scenario_b_line"

definition reindexed :: "database connection" where
  "reindexed =
     snd (index_document_enhanced (\<lambda>path. Text scenario_b_document) scenario_a_indexed
            [100, 111, 99] [108, 97, 119] [])"

section \<open>Properties of the segmenter\<close>

subsection \<open>Scenario A\<close>

lemma scenario_a_split:
  "re_split_pages True (page_1_marker @ scenario_a_text) = ([], [([49], 10 # scenario_a_text)])"
  by code_simp

lemma scenario_a_strip: "py_strip (10 # scenario_a_text) = scenario_a_text"
  by code_simp

lemma scenario_a_lines:
  "page_lines scenario_a_text =
     [(0, chapter_1_line), (1, section_1_line), (2, article_1_marker),
      (3, [1606, 1589, 32, 1575, 1604, 1605, 1575, 1583, 1577, 32, 1575, 1604, 1571, 1608,
           1604])]"
  by code_simp

lemma py_int_1: "py_int [49] = Inr 1"
  by code_simp

text \<open>
  C5. A document of one page whose text is the four lines of Scenario A gives exactly one
  unit: an article with number \<open>1\<close>, the chapter line as chapter, the section line as
  section and the fourth line as body.
\<close>

theorem scenario_a_one_article:
  "parse_markdown_document_enhanced (\<lambda>path. Text (page_1_marker @ scenario_a_text))
     file_path document_name =
   Inr ([\<lparr>pc_page_number = 1, pc_content = scenario_a_text,
          pc_document_name = document_name\<rparr>],
        [\<lparr>u_id = 1, u_document_name = document_name, u_page_number = 1,
          u_chapter = chapter_1_line, u_section = section_1_line,
          u_article_number = [49], u_title = [],
          u_content = [1606, 1589, 32, 1575, 1604, 1605, 1575, 1583, 1577, 32, 1575, 1604,
                       1571, 1608, 1604],
          u_article_type = Article, u_position_in_page = 2\<rparr>])"
  unfolding parse_markdown_document_enhanced_def read_text_def parse_content_def
  apply (simp add: scenario_a_split scan_page_def py_int_1 scenario_a_strip scenario_a_lines)
  apply (simp add: scan_line_def begin_page_def initial_pstate_def py_strip_def
      py_isspace_def startswith_def chapter_kw_def section_kw_def article_match_def
      match_label_def article_kw_def close_article_def emit_article_def chapter_1_line_def
      section_1_line_def article_1_marker_def)
  done

subsection \<open>Carried chapter and section\<close>
lemma carried_alt:
  "carried kw init ls =
     (if filter (\<lambda>l. startswith l kw) ls = [] then init
      else last (filter (\<lambda>l. startswith l kw) ls))"
  by (simp add: carried_def split: list.splits)

lemma carried_append: "carried kw init (xs @ ys) = carried kw (carried kw init xs) ys"
  by (simp add: carried_alt)

lemma carried_Nil: "carried kw init [] = init"
  by (simp add: carried_def)

lemma carried_single:
  "carried kw init [l] = (if startswith l kw then l else init)"
  by (simp add: carried_def)

lemma carried_snoc:
  "carried kw init (ls @ [l]) = (if startswith l kw then l else carried kw init ls)"
  by (simp add: carried_append carried_single)

lemma section_not_chapter: "startswith l section_kw \<Longrightarrow> \<not> startswith l chapter_kw"
  by (auto simp: startswith_def section_kw_def chapter_kw_def)

lemma close_article_carried [simp]:
  "current_chapter (close_article d p st) = current_chapter st"
  "current_section (close_article d p st) = current_section st"
  by (simp_all add: close_article_def emit_article_def)

lemma scan_line_chapter:
  "current_chapter (scan_line d p st il) =
     (if startswith (py_strip (snd il)) chapter_kw then py_strip (snd il) else current_chapter st)"
  by (auto simp: scan_line_def Let_def emit_general_def startswith_def chapter_kw_def
      split: option.splits)

lemma scan_line_section:
  "current_section (scan_line d p st il) =
     (if startswith (py_strip (snd il)) section_kw then py_strip (snd il) else current_section st)"
  by (auto simp: scan_line_def Let_def emit_general_def section_not_chapter
      split: option.splits) (auto simp: startswith_def section_kw_def)

lemma foldl_scan_line_chapter:
  "current_chapter (foldl (scan_line d p) st ils) =
     carried chapter_kw (current_chapter st) (map (\<lambda>il. py_strip (snd il)) ils)"
  by (induction ils rule: rev_induct) (simp_all add: carried_Nil carried_snoc scan_line_chapter)

lemma foldl_scan_line_section:
  "current_section (foldl (scan_line d p) st ils) =
     carried section_kw (current_section st) (map (\<lambda>il. py_strip (snd il)) ils)"
  by (induction ils rule: rev_induct) (simp_all add: carried_Nil carried_snoc scan_line_section)

lemma scan_page_carried:
  assumes "scan_page d st sec = Inr st'"
  shows "current_chapter st' = carried chapter_kw (current_chapter st) (stripped_lines (snd sec))"
    and "current_section st' = carried section_kw (current_section st) (stripped_lines (snd sec))"
  using assms
  by (auto simp: scan_page_def Let_def foldl_scan_line_chapter foldl_scan_line_section
      stripped_lines_def begin_page_def split: sum.splits)

lemma scan_pages_carried:
  "scan_pages d st secs = Inr st' \<Longrightarrow>
     current_chapter st' = carried chapter_kw (current_chapter st) (document_lines secs) \<and>
     current_section st' = carried section_kw (current_section st) (document_lines secs)"
proof (induction secs arbitrary: st)
  case Nil
  then show ?case by (simp add: document_lines_def carried_Nil)
next
  case (Cons sec secs)
  from Cons.prems obtain st1 where s1: "scan_page d st sec = Inr st1"
    and s2: "scan_pages d st1 secs = Inr st'"
    by (auto split: sum.splits)
  have dl: "document_lines (sec # secs) = stripped_lines (snd sec) @ document_lines secs"
    by (simp add: document_lines_def)
  from Cons.IH [OF s2] scan_page_carried [OF s1] show ?case
    by (simp add: dl carried_append)
qed

lemma scan_line_emits:
  "\<exists>new. articles (scan_line d p st il) = articles st @ new \<and>
     (\<forall>u \<in> set new. u_chapter u = current_chapter st \<and> u_section u = current_section st)"
  by (auto simp: scan_line_def Let_def emit_general_def close_article_def emit_article_def
      split: option.splits)

lemma close_article_emits:
  "\<exists>new. articles (close_article d p st) = articles st @ new \<and>
     (\<forall>u \<in> set new. u_chapter u = current_chapter st \<and> u_section u = current_section st)"
  by (auto simp: close_article_def emit_article_def)

text \<open>
  C6. At every point of the segmentation, after any number of pages and any number of lines
  of the next page, the carried chapter is the most recent stripped line of the document so
  far that begins with the chapter keyword, and the empty string when there is none; the
  same holds for the section. The state starts empty with the document and is not reset at
  a page, a later marker replaces an earlier one, and every unit that the next line or the
  end of the page emits records the carried values of that moment.
\<close>

theorem carried_state:
  assumes "scan_pages d initial_pstate secs = Inr st"
    and "py_int (fst sec) = Inr page_num"
    and "st' = foldl (scan_line d page_num) (begin_page d page_num (py_strip (snd sec)) st)
                 (take k (page_lines (py_strip (snd sec))))"
  shows "current_chapter st' =
           latest_marker chapter_kw (document_lines secs @ take k (stripped_lines (snd sec)))
       \<and> current_section st' =
           latest_marker section_kw (document_lines secs @ take k (stripped_lines (snd sec)))
       \<and> (\<forall>il. \<exists>new. articles (scan_line d page_num st' il) = articles st' @ new \<and>
             (\<forall>u \<in> set new. u_chapter u = current_chapter st' \<and> u_section u = current_section st'))
       \<and> (\<exists>new. articles (close_article d page_num st') = articles st' @ new \<and>
             (\<forall>u \<in> set new. u_chapter u = current_chapter st' \<and> u_section u = current_section st'))"
proof -
  from scan_pages_carried [OF assms(1)]
  have c: "current_chapter st = carried chapter_kw [] (document_lines secs)"
    and s: "current_section st = carried section_kw [] (document_lines secs)"
    by (simp_all add: initial_pstate_def)
  have t: "take k (stripped_lines (snd sec)) =
             map (\<lambda>il. py_strip (snd il)) (take k (page_lines (py_strip (snd sec))))"
    by (simp add: stripped_lines_def take_map)
  have "current_chapter st' =
          latest_marker chapter_kw (document_lines secs @ take k (stripped_lines (snd sec)))"
    unfolding assms(3) latest_marker_def carried_append t foldl_scan_line_chapter
    by (simp add: begin_page_def c)
  moreover have "current_section st' =
          latest_marker section_kw (document_lines secs @ take k (stripped_lines (snd sec)))"
    unfolding assms(3) latest_marker_def carried_append t foldl_scan_line_section
    by (simp add: begin_page_def s)
  ultimately show ?thesis
    using scan_line_emits close_article_emits by blast
qed

theorem carried_state_witness:
  "current_chapter
     (foldl (scan_line [100] 2)
        (begin_page [100] 2 (py_strip second_page_text)
           (projr (scan_pages [100] initial_pstate [([49], first_page_text)])))
        (take 1 (page_lines (py_strip second_page_text)))) = chapter_2_line
   \<and> current_section
     (foldl (scan_line [100] 2)
        (begin_page [100] 2 (py_strip second_page_text)
           (projr (scan_pages [100] initial_pstate [([49], first_page_text)])))
        (take 1 (page_lines (py_strip second_page_text)))) = section_1_line"
proof -
  have "\<not> isl (scan_pages [100] initial_pstate [([49], first_page_text)])"
    by code_simp
  then have h1: "scan_pages [100] initial_pstate [([49], first_page_text)] =
      Inr (projr (scan_pages [100] initial_pstate [([49], first_page_text)]))"
    by simp
  have h2: "py_int (fst ([50], second_page_text)) = Inr 2"
    by code_simp
  have v1: "latest_marker chapter_kw
      (document_lines [([49], first_page_text)] @ take 1 (stripped_lines second_page_text)) =
      chapter_2_line"
    by code_simp
  have v2: "latest_marker section_kw
      (document_lines [([49], first_page_text)] @ take 1 (stripped_lines second_page_text)) =
      section_1_line"
    by code_simp
  note r = carried_state [OF h1 h2 refl, of 1, unfolded snd_conv v1 v2]
  from conjunct1 [OF r] conjunct1 [OF conjunct2 [OF r]] show ?thesis
    by (rule conjI)
qed

subsection \<open>Lines outside an article\<close>

text \<open>
  C7. A stripped, non-blank line that is no chapter, section or article marker, scanned
  while no article is open: when it has more than 10 characters, exactly one unit is
  appended, of kind general, with the line as body, empty article number and title, and
  the line's index as position; when it has 10 characters or fewer, nothing changes.
\<close>

theorem general_line_outside_article:
  assumes "line = py_strip raw" and "line \<noteq> []" and "\<not> in_article st"
    and "\<not> startswith line chapter_kw" and "\<not> startswith line section_kw"
    and "article_match line = None"
  shows "(length line > 10 \<longrightarrow>
            articles (scan_line document_name page_num st (line_idx, raw)) =
              articles st @
              [\<lparr>u_id = article_id st + 1, u_document_name = document_name,
                u_page_number = page_num, u_chapter = current_chapter st,
                u_section = current_section st, u_article_number = [], u_title = [],
                u_content = line, u_article_type = General,
                u_position_in_page = int line_idx\<rparr>])
       \<and> (length line \<le> 10 \<longrightarrow> scan_line document_name page_num st (line_idx, raw) = st)"
  using assms by (simp add: scan_line_def Let_def emit_general_def)

theorem general_line_outside_article_witness:
  "articles (scan_line [100] 1 initial_pstate (0, scenario_b_line)) =
     [\<lparr>u_id = 1, u_document_name = [100], u_page_number = 1, u_chapter = [],
       u_section = [], u_article_number = [], u_title = [], u_content = scenario_b_line,
       u_article_type = General, u_position_in_page = 0\<rparr>]
   \<and> scan_line [100] 1 initial_pstate (3, short_line) = initial_pstate"
proof -
  have b: "scenario_b_line = py_strip scenario_b_line" "scenario_b_line \<noteq> []"
    "\<not> startswith scenario_b_line chapter_kw" "\<not> startswith scenario_b_line section_kw"
    "article_match scenario_b_line = None" "length scenario_b_line > 10"
    by code_simp+
  have s: "short_line = py_strip short_line" "short_line \<noteq> []"
    "\<not> startswith short_line chapter_kw" "\<not> startswith short_line section_kw"
    "article_match short_line = None" "length short_line \<le> 10"
    by code_simp+
  have i: "\<not> in_article initial_pstate"
    by (simp add: initial_pstate_def)
  from general_line_outside_article [OF b(1) b(2) i b(3) b(4) b(5), of "[100]" 1 0] b(6)
    general_line_outside_article [OF s(1) s(2) i s(3) s(4) s(5), of "[100]" 1 3] s(6)
  show ?thesis
    by (simp add: initial_pstate_def)
qed

subsection \<open>Article markers while an article is open\<close>

lemma startswith_nth: "startswith s p \<Longrightarrow> i < length p \<Longrightarrow> s ! i = p ! i"
  by (metis nth_take startswith_def)

lemma article_match_not_marker:
  assumes "article_match line = Some label"
  shows "line \<noteq> [] \<and> \<not> startswith line chapter_kw \<and> \<not> startswith line section_kw"
proof -
  from assms have "startswith line [42, 42] \<or> startswith line article_kw"
    by (auto simp: article_match_def match_label_def split: if_splits option.splits)
  then have "line ! 0 = 42 \<or> line ! 2 = 1605"
    using startswith_nth [of line "[42, 42]" 0] startswith_nth [of line article_kw 2]
    by (auto simp: article_kw_def)
  moreover have "startswith line chapter_kw \<Longrightarrow> line ! 0 = 1575 \<and> line ! 2 = 1576"
    using startswith_nth [of line chapter_kw 0] startswith_nth [of line chapter_kw 2]
    by (simp add: chapter_kw_def)
  moreover have "startswith line section_kw \<Longrightarrow> line ! 0 = 1575 \<and> line ! 2 = 1601"
    using startswith_nth [of line section_kw 0] startswith_nth [of line section_kw 2]
    by (simp add: section_kw_def)
  moreover from assms have "line \<noteq> []"
    by (auto simp: article_match_def match_label_def startswith_def article_kw_def
        split: if_splits option.splits)
  ultimately show ?thesis by auto
qed

text \<open>
  C8, as stated, fails: after the marker of article 1 with no line of body, the marker of
  article 2 appends no unit, and the document of these two markers and one line of body
  has the single unit of article 2.
\<close>

theorem open_article_without_body_not_emitted:
  "in_article (scan_line [100] 1 initial_pstate (0, article_1_marker))
   \<and> article_match (py_strip article_2_marker) = Some [50]
   \<and> articles (scan_line [100] 1 (scan_line [100] 1 initial_pstate (0, article_1_marker))
        (1, article_2_marker)) = []
   \<and> map_sum id (\<lambda>r. map u_article_number (snd r))
       (parse_content
          (page_1_marker @ article_1_marker @ [10] @ article_2_marker @ [10] @ body_line)
          [100]) = Inr [[50]]"
  by code_simp

text \<open>
  C8, amended. When a line matching the article pattern is scanned while an article is
  open, the open article is appended as a unit, before the new one is opened, if its body
  has at least one line, and is dropped if its body is empty; in both cases the new
  article is then open with the captured label, an empty body and the line's index.
\<close>

theorem article_marker_closes_open_article:
  assumes "article_match (py_strip raw) = Some label" and "in_article st"
  shows "(current_article_content st \<noteq> [] \<longrightarrow>
            articles (scan_line document_name page_num st (line_idx, raw)) =
              articles st @
              [\<lparr>u_id = article_id st + 1, u_document_name = document_name,
                u_page_number = page_num, u_chapter = current_chapter st,
                u_section = current_section st,
                u_article_number = current_article_number st,
                u_title = current_article_title st,
                u_content = py_join [10] (current_article_content st),
                u_article_type = Article, u_position_in_page = position_in_page st\<rparr>])
       \<and> (current_article_content st = [] \<longrightarrow>
            articles (scan_line document_name page_num st (line_idx, raw)) = articles st)
       \<and> in_article (scan_line document_name page_num st (line_idx, raw))
       \<and> current_article_number (scan_line document_name page_num st (line_idx, raw)) = label
       \<and> current_article_content (scan_line document_name page_num st (line_idx, raw)) = []
       \<and> position_in_page (scan_line document_name page_num st (line_idx, raw)) = int line_idx"
  using assms article_match_not_marker [OF assms(1)]
  by (simp add: scan_line_def Let_def close_article_def emit_article_def)
theorem article_marker_closes_open_article_witness:
  "articles
     (scan_line [100] 1
        (scan_line [100] 1 (scan_line [100] 1 initial_pstate (0, article_1_marker))
           (1, body_line))
        (2, article_2_marker)) =
     [\<lparr>u_id = 1, u_document_name = [100], u_page_number = 1, u_chapter = [],
       u_section = [], u_article_number = [49], u_title = [], u_content = body_line,
       u_article_type = Article, u_position_in_page = 0\<rparr>]"
proof -
  let ?st = "scan_line [100] 1 (scan_line [100] 1 initial_pstate (0, article_1_marker))
               (1, body_line)"
  have h: "article_match (py_strip article_2_marker) = Some [50]" "in_article ?st"
    "current_article_content ?st \<noteq> []"
    by code_simp+
  have v: "articles ?st = []" "article_id ?st = 0" "current_chapter ?st = []"
    "current_section ?st = []" "current_article_number ?st = [49]"
    "current_article_title ?st = []" "py_join [10] (current_article_content ?st) = body_line"
    "position_in_page ?st = 0"
    by code_simp+
  note e = mp [OF conjunct1 [OF article_marker_closes_open_article [OF h(1) h(2), of "[100]" 1 2]] h(3)]
  show ?thesis
    unfolding e v by simp
qed

section \<open>Properties of the query engine\<close>

subsection \<open>Highlighting\<close>

lemma highlight_words_short:
  "\<forall>w \<in> set ws. length w \<le> 2 \<Longrightarrow> highlight_words M pre post ws tx = Inr tx"
  by (induction ws arbitrary: tx) auto

lemma re_sub_no_match:
  "\<forall>i < length tx. \<not> imatch_here M word (drop i tx) \<Longrightarrow> re_sub M word repl tx = tx"
proof (induction tx)
  case Nil
  then show ?case by simp
next
  case (Cons c cs)
  from Cons.prems have "\<not> imatch_here M word (drop 0 (c # cs))"
    by blast
  moreover have "\<forall>i < length cs. \<not> imatch_here M word (drop i cs)"
  proof (intro allI impI)
    fix i assume "i < length cs"
    with Cons.prems have "\<not> imatch_here M word (drop (Suc i) (c # cs))"
      by (metis Suc_less_eq length_Cons)
    then show "\<not> imatch_here M word (drop i cs)" by simp
  qed
  ultimately show ?case
    using Cons.IH by simp
qed

lemma re_sub_first_match:
  assumes "word \<noteq> []" and "length occ = length word" and "imatch_here M word (occ @ after)"
    and "\<forall>i < length before. \<not> imatch_here M word (drop i (before @ occ @ after))"
  shows "re_sub M word repl (before @ occ @ after) = before @ repl occ @ re_sub M word repl after"
  using assms(4)
proof (induction before)
  case Nil
  from assms(1,2) obtain c cs where occ: "occ = c # cs"
    by (cases occ) auto
  with assms(2) have l: "length word - 1 = length cs"
    by simp
  from assms(3) occ have "imatch_here M word (c # cs @ after)"
    by simp
  then have "re_sub M word repl (c # cs @ after) =
      repl (take (length word) (c # cs @ after)) @
      re_sub M word repl (drop (length word - 1) (cs @ after))"
    by simp
  also have "take (length word) (c # cs @ after) = occ"
    using assms(2) [symmetric] occ by simp
  also have "drop (length word - 1) (cs @ after) = after"
    using l by simp
  finally show ?case
    using occ by simp
next
  case (Cons b bs)
  from Cons.prems have "\<not> imatch_here M word (drop 0 ((b # bs) @ occ @ after))"
    by (metis length_greater_0_conv list.distinct(1))
  then have n: "\<not> imatch_here M word (b # bs @ occ @ after)"
    by simp
  have "\<forall>i < length bs. \<not> imatch_here M word (drop i (bs @ occ @ after))"
  proof (intro allI impI)
    fix i assume "i < length bs"
    with Cons.prems have "\<not> imatch_here M word (drop (Suc i) ((b # bs) @ occ @ after))"
      by (metis Suc_less_eq length_Cons)
    then show "\<not> imatch_here M word (drop i (bs @ occ @ after))" by simp
  qed
  with Cons.IH have "re_sub M word repl (bs @ occ @ after) =
      bs @ repl occ @ re_sub M word repl after"
    by blast
  with n show ?case by simp
qed

lemma highlight_one_word:
  assumes "92 \<notin> set pre" and "92 \<notin> set post" and "2 < length word" and "92 \<notin> set word"
  shows "highlight_words M pre post [word] text =
           Inr (re_sub M word (\<lambda>matched. pre @ word @ post) text)"
  using assms by (simp add: compile_repl_def)

lemma split_ws_space:
  "py_isspace c \<Longrightarrow> split_ws w (a @ c # b) = split_ws w a @ split_ws [] b"
  by (induction a arbitrary: w) auto

lemma py_split_space:
  "py_isspace c \<Longrightarrow> py_split (q1 @ [c] @ q2) = py_split q1 @ py_split q2"
  by (simp add: py_split_def split_ws_space)

lemma split_ws_word:
  "\<forall>c \<in> set word. \<not> py_isspace c \<Longrightarrow> w @ word \<noteq> [] \<Longrightarrow> split_ws w word = [w @ word]"
  by (induction word arbitrary: w) auto

lemma py_split_word:
  "\<forall>c \<in> set word. \<not> py_isspace c \<Longrightarrow> word \<noteq> [] \<Longrightarrow> py_split word = [word]"
  using split_ws_word [of word "[]"] by (simp add: py_split_def)

lemma highlight_words_append:
  "highlight_words M pre post (ws1 @ ws2) tx =
     (case highlight_words M pre post ws1 tx of
        Inl e \<Rightarrow> Inl e
      | Inr t \<Rightarrow> highlight_words M pre post ws2 t)"
  by (induction ws1 arbitrary: tx) (auto split: sum.splits)

text \<open>The four properties for the loop with either marker, on the words of the query.\<close>

lemma highlight_query:
  assumes "92 \<notin> set pre" and "92 \<notin> set post"
  shows "py_isspace c \<Longrightarrow>
           highlight_words M pre post (py_split (q1 @ [c] @ q2)) tx =
             (case highlight_words M pre post (py_split q1) tx of
                Inl e \<Rightarrow> Inl e
              | Inr t \<Rightarrow> highlight_words M pre post (py_split q2) t)"
    and "2 < length word \<Longrightarrow> 92 \<notin> set word \<Longrightarrow> \<forall>c \<in> set word. \<not> py_isspace c \<Longrightarrow>
           \<forall>i < length tx. \<not> imatch_here M word (drop i tx) \<Longrightarrow>
           highlight_words M pre post (py_split word) tx = Inr tx"
    and "2 < length word \<Longrightarrow> 92 \<notin> set word \<Longrightarrow> \<forall>c \<in> set word. \<not> py_isspace c \<Longrightarrow>
           length occ = length word \<Longrightarrow> imatch_here M word (occ @ after) \<Longrightarrow>
           \<forall>i < length before. \<not> imatch_here M word (drop i (before @ occ @ after)) \<Longrightarrow>
           highlight_words M pre post (py_split word) after = Inr rest \<Longrightarrow>
           highlight_words M pre post (py_split word) (before @ occ @ after) =
             Inr (before @ pre @ word @ post @ rest)"
proof -
  show "py_isspace c \<Longrightarrow>
      highlight_words M pre post (py_split (q1 @ [c] @ q2)) tx =
        (case highlight_words M pre post (py_split q1) tx of
           Inl e \<Rightarrow> Inl e
         | Inr t \<Rightarrow> highlight_words M pre post (py_split q2) t)"
    by (simp only: py_split_space highlight_words_append)
next
  assume w: "2 < length word" "92 \<notin> set word" "\<forall>c \<in> set word. \<not> py_isspace c"
  then have s: "py_split word = [word]"
    by (intro py_split_word) auto
  have h: "\<And>t. highlight_words M pre post [word] t =
      Inr (re_sub M word (\<lambda>matched. pre @ word @ post) t)"
    using assms w by (intro highlight_one_word) simp_all
  {
    assume "\<forall>i < length tx. \<not> imatch_here M word (drop i tx)"
    then show "highlight_words M pre post (py_split word) tx = Inr tx"
      unfolding s h by (simp add: re_sub_no_match)
  next
    assume o: "length occ = length word" "imatch_here M word (occ @ after)"
      "\<forall>i < length before. \<not> imatch_here M word (drop i (before @ occ @ after))"
      and r: "highlight_words M pre post (py_split word) after = Inr rest"
    from w have ne: "word \<noteq> []" by auto
    from r have r': "rest = re_sub M word (\<lambda>matched. pre @ word @ post) after"
      unfolding s h by simp
    show "highlight_words M pre post (py_split word) (before @ occ @ after) =
        Inr (before @ pre @ word @ post @ rest)"
      unfolding s h r' using re_sub_first_match [OF ne o] by simp
  }
qed

lemma markers_literal:
  "92 \<notin> set mark_open" "92 \<notin> set mark_close" "92 \<notin> set [42, 42 :: nat]"
  by (simp_all add: mark_open_def mark_close_def)

text \<open>
  C10, as stated, fails: the occurrence \<open>ABC\<close> of the query word \<open>abc\<close> is replaced by the
  marker around \<open>abc\<close>, the word as the query spells it; the occurrence's own text is not
  kept. Both engines do so.
\<close>

theorem highlight_loses_original_case:
  "highlight_matches plain_re [65, 66, 67] [97, 98, 99] = Inr (mark_open @ [97, 98, 99] @ mark_close)
   \<and> highlight_matches plain_re [65, 66, 67] [97, 98, 99] \<noteq> Inr (mark_open @ [65, 66, 67] @ mark_close)
   \<and> basic_highlight_matches plain_re [65, 66, 67] [97, 98, 99] = Inr [42, 42, 97, 98, 99, 42, 42]"
  by code_simp

text \<open>
  C10, amended. For every highlight source and target text, the highlighting function of
  either engine splits the source at whitespace and applies the words in order, each to
  the text that the words before it produced: the source \<open>q1\<close>, a whitespace character and
  \<open>q2\<close> is highlighted by highlighting with \<open>q1\<close> and then, in the result, with \<open>q2\<close>. A
  source whose words all have length at most 2 leaves the text unchanged. A word of length
  greater than 2, without a backslash, leaves a text without an occurrence unchanged, and
  otherwise replaces the occurrences, compared without case, from the left and without
  overlap: the text before the first occurrence stays, the occurrence becomes the marker
  around the word as the source spells it (not around the occurrence's own text), and the
  text after it is highlighted in the same way.
\<close>

theorem highlight_wraps_query_word:
  "(py_isspace c \<longrightarrow>
      highlight_matches M text (q1 @ [c] @ q2) =
        (case highlight_matches M text q1 of
           Inl e \<Rightarrow> Inl e
         | Inr t \<Rightarrow> highlight_matches M t q2) \<and>
      basic_highlight_matches M text (q1 @ [c] @ q2) =
        (case basic_highlight_matches M text q1 of
           Inl e \<Rightarrow> Inl e
         | Inr t \<Rightarrow> basic_highlight_matches M t q2))
   \<and> ((\<forall>w \<in> set (py_split query). length w \<le> 2) \<longrightarrow>
        highlight_matches M text query = Inr text \<and>
        basic_highlight_matches M text query = Inr text)
   \<and> (2 < length word \<and> 92 \<notin> set word \<and> (\<forall>c \<in> set word. \<not> py_isspace c) \<and>
        (\<forall>i < length text. \<not> imatch_here M word (drop i text)) \<longrightarrow>
        highlight_matches M text word = Inr text \<and>
        basic_highlight_matches M text word = Inr text)
   \<and> (2 < length word \<and> 92 \<notin> set word \<and> (\<forall>c \<in> set word. \<not> py_isspace c) \<and>
        length occ = length word \<and> imatch_here M word (occ @ after) \<and>
        (\<forall>i < length before. \<not> imatch_here M word (drop i (before @ occ @ after))) \<longrightarrow>
        (highlight_matches M after word = Inr rest \<longrightarrow>
           highlight_matches M (before @ occ @ after) word =
             Inr (before @ mark_open @ word @ mark_close @ rest)) \<and>
        (basic_highlight_matches M after word = Inr rest' \<longrightarrow>
           basic_highlight_matches M (before @ occ @ after) word =
             Inr (before @ [42, 42] @ word @ [42, 42] @ rest')))"
  unfolding highlight_matches_def basic_highlight_matches_def
  by (intro conjI impI; (elim conjE)?;
      (rule highlight_query [OF markers_literal(1,2)] highlight_query [OF markers_literal(3,3)]
         highlight_words_short; assumption))

theorem highlight_wraps_query_word_witness:
  "highlight_matches plain_re ([120] @ [65, 66, 67] @ [121]) [97, 98, 99] =
     Inr ([120] @ mark_open @ [97, 98, 99] @ mark_close @ [121])
   \<and> highlight_matches plain_re [120, 65, 66, 67, 121] ([97, 98] @ [32] @ [97, 98, 99]) =
     Inr ([120] @ mark_open @ [97, 98, 99] @ mark_close @ [121])"
proof -
  have h: "2 < length [97, 98, 99 :: nat] \<and> 92 \<notin> set [97, 98, 99 :: nat] \<and>
      (\<forall>c \<in> set [97, 98, 99 :: nat]. \<not> py_isspace c) \<and>
      length [65, 66, 67 :: nat] = length [97, 98, 99 :: nat] \<and>
      imatch_here plain_re [97, 98, 99] ([65, 66, 67] @ [121]) \<and>
      (\<forall>i < length [120 :: nat].
          \<not> imatch_here plain_re [97, 98, 99] (drop i ([120] @ [65, 66, 67] @ [121])))"
    by (simp add: ichar_eq_def ascii_lower_def py_isspace_def)
  have r: "highlight_matches plain_re [121] [97, 98, 99] = Inr [121]"
    by code_simp
  note t = highlight_wraps_query_word [where M = plain_re]
  note t4 = mp [OF conjunct1 [OF mp [OF conjunct2 [OF conjunct2 [OF conjunct2 [OF t]]] h]] r]
  have s: "py_isspace 32"
    by (simp add: py_isspace_def)
  have q: "highlight_matches plain_re [120, 65, 66, 67, 121] [97, 98] =
      Inr [120, 65, 66, 67, 121]"
    by code_simp
  note t1 = conjunct1 [OF mp [OF conjunct1 [OF t] s],
      of "[120, 65, 66, 67, 121]" "[97, 98]" "[97, 98, 99]"]
  from t4 have t4': "highlight_matches plain_re [120, 65, 66, 67, 121] [97, 98, 99] =
      Inr ([120] @ mark_open @ [97, 98, 99] @ mark_close @ [121])"
    by simp
  from t1 have "highlight_matches plain_re [120, 65, 66, 67, 121] ([97, 98] @ [32] @ [97, 98, 99]) =
      Inr ([120] @ mark_open @ [97, 98, 99] @ mark_close @ [121])"
    unfolding q using t4' by simp
  with t4 show ?thesis ..
qed

subsection \<open>Blank queries\<close>

lemma py_strip_blank:
  assumes "\<forall>c \<in> set query. py_isspace c"
  shows "py_strip query = []"
proof -
  from assms have d: "dropWhile py_isspace query = []"
    by (simp add: dropWhile_eq_Nil_conv)
  show ?thesis
    by (simp only: py_strip_def d rev.simps dropWhile.simps)
qed

lemma fts5_tokens_blank: "\<forall>c \<in> set query. fts5_isspace c \<Longrightarrow> fts5_tokens query = Some []"
  by (induction query) auto

text \<open>
  C3, as stated, fails: for the empty query and for a query of three spaces \<open>search\<close>
  returns the empty list, a normal result.
\<close>

theorem blank_query_returns_empty_list:
  "search (match_all :: (basic_fts_row, int) fts5_engine) plain_re basic_init_database [] 10 = Inr []
   \<and> search (match_all :: (basic_fts_row, int) fts5_engine) plain_re basic_init_database
       [32, 32, 32] 10 = Inr []"
  by code_simp

text \<open>
  C3, amended. For every query that is empty or consists only of whitespace, \<open>search\<close> of
  the first engine returns the empty list as a normal result, whatever the index holds and
  whatever the limit. \<open>search_enhanced\<close> has no check of its own and hands the query to
  MATCH: when the query is empty or consists only of spaces, tabs and line breaks, it
  raises the error of SQLite, OperationalError (OverflowError when the limit is no SQLite
  integer), and no error about an empty query.
\<close>

theorem blank_query:
  "((\<forall>c \<in> set query. py_isspace c) \<longrightarrow> search E M conn query limit = Inr [])
   \<and> ((\<forall>c \<in> set query. fts5_isspace c) \<longrightarrow>
        search_enhanced E' M conn' query limit =
          (if in_int64 limit then Inl OperationalError else Inl OverflowError))"
  by (simp add: search_def search_enhanced_def py_strip_blank fts5_match_expr_def
      fts5_tokens_blank)

theorem blank_query_witness:
  "search (match_all :: (basic_fts_row, int) fts5_engine) plain_re basic_init_database
     [32, 9, 160] 10 = Inr []
   \<and> search_enhanced (match_all :: (articles_fts_row, int) fts5_engine) plain_re init_database
       [32, 9] 10 = Inl OperationalError"
proof -
  have a: "\<forall>c \<in> set [32, 9, 160 :: nat]. py_isspace c"
    by (simp add: py_isspace_def)
  have b: "\<forall>c \<in> set [32, 9 :: nat]. fts5_isspace c"
    by (simp add: fts5_isspace_def)
  have c: "in_int64 10"
    by (simp add: in_int64_def)
  have 1: "search (match_all :: (basic_fts_row, int) fts5_engine) plain_re basic_init_database
      [32, 9, 160] 10 = Inr []"
    by (rule mp [OF conjunct1 [OF blank_query] a])
  have 2: "search_enhanced (match_all :: (articles_fts_row, int) fts5_engine) plain_re
      init_database [32, 9] 10 =
      (if in_int64 10 then Inl OperationalError else Inl OverflowError)"
    by (rule mp [OF conjunct2 [OF blank_query] b])
  from 1 2 c show ?thesis by simp
qed

subsection \<open>Queries that match nothing\<close>

lemma concat_map_if_Nil:
  "\<forall>x \<in> set xs. \<not> P x \<Longrightarrow> concat (map (\<lambda>x. if P x then g x else []) xs) = []"
  by (induction xs) auto

lemma search_rows_no_match:
  "\<forall>f \<in> set (tbl_articles_fts db). \<not> fts5_matches E toks f \<Longrightarrow> search_rows E db toks = []"
  unfolding search_rows_def by (simp add: concat_map_if_Nil)

lemma basic_search_rows_no_match:
  "\<forall>f \<in> set (btbl_articles_fts db). \<not> fts5_matches E toks f \<Longrightarrow>
     basic_search_rows E db toks = []"
  unfolding basic_search_rows_def by (simp add: concat_map_if_Nil)

text \<open>
  C4, as stated, fails: the query \<open>law?\<close> is not blank and, the index being empty, matches
  no record, but \<open>?\<close> is no character of the FTS5 query language, and both \<open>search\<close> and
  \<open>search_enhanced\<close> raise OperationalError.
\<close>

theorem unparsable_query_raises:
  "py_strip [108, 97, 119, 63] \<noteq> []
   \<and> search_enhanced (match_all :: (articles_fts_row, int) fts5_engine) plain_re init_database
       [108, 97, 119, 63] 10 = Inl OperationalError
   \<and> search (match_all :: (basic_fts_row, int) fts5_engine) plain_re basic_init_database
       [108, 97, 119, 63] 10 = Inl OperationalError"
  by code_simp

text \<open>
  C4, amended. For every query that FTS5 accepts as a query expression, with a limit that
  is an SQLite integer, and whose expression matches no indexed record, \<open>search_enhanced\<close>
  returns the empty sequence and raises no error; so does \<open>search\<close>, for the stripped
  query. (A query that FTS5 does not accept raises OperationalError.)
\<close>

theorem no_match_returns_empty:
  "(in_int64 limit \<and> fts5_match_expr E query = Inr toks \<and>
      (\<forall>f \<in> set (tbl_articles_fts (session conn)). \<not> fts5_matches E toks f) \<longrightarrow>
      search_enhanced E M conn query limit = Inr [])
   \<and> (in_int64 limit \<and> fts5_match_expr E' (py_strip query) = Inr toks' \<and>
      (\<forall>f \<in> set (btbl_articles_fts (session conn')). \<not> fts5_matches E' toks' f) \<longrightarrow>
      search E' M conn' query limit = Inr [])"
  by (simp add: search_enhanced_def search_def search_rows_no_match
      basic_search_rows_no_match apply_limit_def Let_def)


theorem no_match_returns_empty_witness:
  "search_enhanced (words_engine af_content af_rowid) plain_re scenario_a_indexed
     [122, 122, 122] 10 = Inr []
   \<and> search (words_engine bf_content bf_rowid) plain_re scenario_a_basic_indexed
       [32, 122, 122, 122] 10 = Inr []"
proof -
  have l: "in_int64 10"
    by (simp add: in_int64_def)
  have e: "fts5_match_expr (words_engine af_content af_rowid) [122, 122, 122] =
      Inr [FTS5_STRING [122, 122, 122]]"
    by code_simp
  have n: "tbl_articles_fts (session scenario_a_indexed) \<noteq> [] \<and>
      (\<forall>f \<in> set (tbl_articles_fts (session scenario_a_indexed)).
        \<not> fts5_matches (words_engine af_content af_rowid) [FTS5_STRING [122, 122, 122]] f)"
    by code_simp
  have e': "fts5_match_expr (words_engine bf_content bf_rowid) (py_strip [32, 122, 122, 122]) =
      Inr [FTS5_STRING [122, 122, 122]]"
    by code_simp
  have n': "btbl_articles_fts (session scenario_a_basic_indexed) \<noteq> [] \<and>
      (\<forall>f \<in> set (btbl_articles_fts (session scenario_a_basic_indexed)).
        \<not> fts5_matches (words_engine bf_content bf_rowid) [FTS5_STRING [122, 122, 122]] f)"
    by code_simp
  have 1: "search_enhanced (words_engine af_content af_rowid) plain_re scenario_a_indexed
      [122, 122, 122] 10 = Inr []"
    using l e n by (intro mp [OF conjunct1 [OF no_match_returns_empty]]) blast
  have 2: "search (words_engine bf_content bf_rowid) plain_re scenario_a_basic_indexed
      [32, 122, 122, 122] 10 = Inr []"
    using l e' n' by (intro mp [OF conjunct2 [OF no_match_returns_empty]]) blast
  from 1 2 show ?thesis ..
qed

section \<open>Properties of indexing\<close>

subsection \<open>Keys\<close>

lemma max_list_nonneg: "0 \<le> max_list xs"
  by (induction xs) (auto simp: max_list_def)

lemma max_list_ge: "x \<in> set xs \<Longrightarrow> x \<le> max_list xs"
  by (induction xs) (auto simp: max_list_def)

lemma max_list_snoc: "max_list (xs @ [x]) = max (max_list xs) x"
  by (induction xs) (auto simp: max_list_def max.assoc)

lemma next_rowid_gt_seq: "seq < next_rowid seq ids"
  by (simp add: next_rowid_def)

lemma next_rowid_gt_ids: "x \<in> set ids \<Longrightarrow> x < next_rowid seq ids"
  using max_list_ge [of x ids] by (simp add: next_rowid_def)

subsection \<open>The statements, table by table\<close>

lemma replace_document_fst:
  "fst (replace_document db name title path) = next_document_id db"
  by (simp add: replace_document_def next_document_id_def Let_def)

lemma replace_document_tables:
  "tbl_pages (snd (replace_document db name title path)) = tbl_pages db"
  "tbl_articles (snd (replace_document db name title path)) = tbl_articles db"
  "tbl_articles_fts (snd (replace_document db name title path)) = tbl_articles_fts db"
  "tbl_pages_fts (snd (replace_document db name title path)) = tbl_pages_fts db"
  "seq_pages (snd (replace_document db name title path)) = seq_pages db"
  "seq_articles (snd (replace_document db name title path)) = seq_articles db"
  "seq_documents (snd (replace_document db name title path)) = next_document_id db"
  "tbl_documents (snd (replace_document db name title path)) =
     filter (\<lambda>d. d_name d \<noteq> name) (tbl_documents db) @
     [\<lparr>d_id = next_document_id db, d_name = name, d_title = title, d_file_path = path,
       d_pages_count = 0\<rparr>]"
  by (simp_all add: replace_document_def next_document_id_def Let_def)

lemma insert_page_tables:
  assumes "insert_page db did page = Inr (pid, db')"
  shows "tbl_documents db' = tbl_documents db"
    and "tbl_articles db' = tbl_articles db"
    and "tbl_articles_fts db' = tbl_articles_fts db"
    and "seq_documents db' = seq_documents db"
    and "seq_articles db' = seq_articles db"
    and "tbl_pages db' = tbl_pages db @
           [\<lparr>p_id = pid, p_document_id = did, p_page_number = pc_page_number page,
             p_content = pc_content page\<rparr>]"
  using assms by (auto simp: insert_page_def Let_def split: if_splits)

lemma page_numbers_of_iff:
  "n \<in> page_numbers_of db did \<longleftrightarrow>
     (\<exists>p \<in> set (tbl_pages db). p_document_id p = did \<and> p_page_number p = n)"
  by (force simp: page_numbers_of_def)

lemma insert_page_result:
  "insert_page db did page =
     (if \<not> in_int64 (pc_page_number page) then Inl OverflowError
      else if pc_page_number page \<in> page_numbers_of db did then Inl IntegrityError
      else Inr (next_rowid (seq_pages db) (map p_id (tbl_pages db)),
                snd (projr (insert_page db did page))))"
  by (simp add: insert_page_def Let_def page_numbers_of_iff) blast

lemma insert_page_numbers:
  assumes "insert_page db did page = Inr (pid, db')"
  shows "page_numbers_of db' did = insert (pc_page_number page) (page_numbers_of db did)"
proof (rule set_eqI)
  fix n
  show "n \<in> page_numbers_of db' did \<longleftrightarrow>
      n \<in> insert (pc_page_number page) (page_numbers_of db did)"
    unfolding page_numbers_of_iff insert_iff insert_page_tables(6) [OF assms]
    by auto
qed

text \<open>The page numbers that a document has in the table.\<close>

lemma insert_pages_tables:
  "insert_pages db did m ps = (res, db') \<Longrightarrow>
     tbl_documents db' = tbl_documents db \<and> tbl_articles db' = tbl_articles db \<and>
     tbl_articles_fts db' = tbl_articles_fts db \<and> seq_documents db' = seq_documents db \<and>
     seq_articles db' = seq_articles db"
proof (induction ps arbitrary: db m)
  case Nil
  then show ?case by simp
next
  case (Cons page ps)
  show ?case
  proof (cases "insert_page db did page")
    case (Inl e)
    with Cons.prems show ?thesis by simp
  next
    case (Inr r)
    obtain pid db1 where r: "r = (pid, db1)" by (cases r)
    with Inr Cons.prems
    have "insert_pages db1 did (m(pc_page_number page \<mapsto> pid)) ps = (res, db')"
      by simp
    from Cons.IH [OF this] insert_page_tables [OF Inr [unfolded r]] show ?thesis
      by simp
  qed
qed

lemma insert_pages_rows:
  "insert_pages db did m ps = (res, db') \<Longrightarrow>
     \<exists>rows. tbl_pages db' = tbl_pages db @ rows \<and> (\<forall>p \<in> set rows. p_document_id p = did) \<and>
       (\<not> isl res \<longrightarrow>
          map (\<lambda>p. (p_page_number p, p_content p)) rows =
          map (\<lambda>p. (pc_page_number p, pc_content p)) ps)"
proof (induction ps arbitrary: db m)
  case Nil
  then show ?case by auto
next
  case (Cons page ps)
  show ?case
  proof (cases "insert_page db did page")
    case (Inl e)
    with Cons.prems show ?thesis by auto
  next
    case (Inr r)
    obtain pid db1 where r: "r = (pid, db1)" by (cases r)
    with Inr Cons.prems
    have "insert_pages db1 did (m(pc_page_number page \<mapsto> pid)) ps = (res, db')"
      by simp
    from Cons.IH [OF this] obtain rows where
      rows: "tbl_pages db' = tbl_pages db1 @ rows" "\<forall>p \<in> set rows. p_document_id p = did"
        "\<not> isl res \<longrightarrow> map (\<lambda>p. (p_page_number p, p_content p)) rows =
           map (\<lambda>p. (pc_page_number p, pc_content p)) ps"
      by blast
    let ?row = "\<lparr>p_id = pid, p_document_id = did, p_page_number = pc_page_number page,
      p_content = pc_content page\<rparr>"
    from rows insert_page_tables(6) [OF Inr [unfolded r]]
    have "tbl_pages db' = tbl_pages db @ (?row # rows)"
      and "\<forall>p \<in> set (?row # rows). p_document_id p = did"
      and "\<not> isl res \<longrightarrow> map (\<lambda>p. (p_page_number p, p_content p)) (?row # rows) =
           map (\<lambda>p. (pc_page_number p, pc_content p)) (page # ps)"
      by simp_all
    then show ?thesis by blast
  qed
qed

text \<open>
  The loop over the pages succeeds exactly when the page numbers are distinct and new for
  the document; with a repeated number it raises IntegrityError.
\<close>

lemma insert_pages_result:
  assumes "\<forall>p \<in> set ps. in_int64 (pc_page_number p)"
  shows "fst (insert_pages db did m ps) =
           (if distinct (map pc_page_number ps) \<and>
               pc_page_number ` set ps \<inter> page_numbers_of db did = {}
            then Inr (projr (fst (insert_pages db did m ps)))
            else Inl IntegrityError)"
  using assms
proof (induction ps arbitrary: db m)
  case Nil
  then show ?case by simp
next
  case (Cons page ps)
  show ?case
  proof (cases "pc_page_number page \<in> page_numbers_of db did")
    case True
    with Cons.prems have "insert_page db did page = Inl IntegrityError"
      by (simp add: insert_page_result)
    with True show ?thesis by simp
  next
    case False
    with Cons.prems have "insert_page db did page =
        Inr (next_rowid (seq_pages db) (map p_id (tbl_pages db)),
             snd (projr (insert_page db did page)))"
      by (subst insert_page_result) simp
    then obtain pid db1 where i: "insert_page db did page = Inr (pid, db1)"
      by blast
    note n = insert_page_numbers [OF i]
    from Cons.prems have "\<forall>p \<in> set ps. in_int64 (pc_page_number p)"
      by simp
    note ih = Cons.IH [OF this, of db1 "m(pc_page_number page \<mapsto> pid)"]
    have d: "(distinct (map pc_page_number (page # ps)) \<and>
           pc_page_number ` set (page # ps) \<inter> page_numbers_of db did = {}) \<longleftrightarrow>
          (distinct (map pc_page_number ps) \<and>
           pc_page_number ` set ps \<inter> page_numbers_of db1 did = {})"
      using False unfolding n by auto
    have e: "fst (insert_pages db did m (page # ps)) =
        fst (insert_pages db1 did (m(pc_page_number page \<mapsto> pid)) ps)"
      using i by simp
    show ?thesis
      unfolding e d by (rule ih)
  qed
qed


lemma insert_article_tables:
  "tbl_documents (insert_article db did pid u) = tbl_documents db"
  "tbl_pages (insert_article db did pid u) = tbl_pages db"
  "tbl_pages_fts (insert_article db did pid u) = tbl_pages_fts db"
  "seq_documents (insert_article db did pid u) = seq_documents db"
  "seq_pages (insert_article db did pid u) = seq_pages db"
  by (simp_all add: insert_article_def Let_def)

lemma insert_articles_tables:
  "tbl_documents (insert_articles db did m us) = tbl_documents db \<and>
   tbl_pages (insert_articles db did m us) = tbl_pages db \<and>
   tbl_pages_fts (insert_articles db did m us) = tbl_pages_fts db \<and>
   seq_documents (insert_articles db did m us) = seq_documents db \<and>
   seq_pages (insert_articles db did m us) = seq_pages db"
  by (induction us arbitrary: db) (simp_all add: insert_article_tables)

lemma document_name_of_cong:
  "tbl_documents db' = tbl_documents db \<Longrightarrow> document_name_of db' did = document_name_of db did"
  by (simp add: document_name_of_def)

text \<open>The row that one INSERT adds to the articles, and what it adds to the index.\<close>

lemma insert_article_rows:
  "\<exists>a. tbl_articles (insert_article db did pid u) = tbl_articles db @ [a] \<and>
       a_id a = last_article_id db + 1 \<and> a_document_id a = did \<and>
       same_unit a u \<and>
       last_article_id (insert_article db did pid u) = last_article_id db + 1 \<and>
       tbl_articles_fts (insert_article db did pid u) =
         tbl_articles_fts db @
         [(fts_row_of (document_name_of db did) a)
            \<lparr>af_rowid := max_list (map af_rowid (tbl_articles_fts db)) + 1\<rparr>]"
  by (simp add: insert_article_def Let_def last_article_id_def next_rowid_def
      next_fts_rowid_def fts_row_of_def max_list_snoc same_unit_def)

lemma insert_articles_rows:
  "\<exists>news. tbl_articles (insert_articles db did m us) = tbl_articles db @ news \<and>
     (\<forall>a \<in> set news. a_document_id a = did \<and> last_article_id db < a_id a) \<and>
     list_all2 same_unit news us \<and>
     (\<forall>a \<in> set (tbl_articles db @ news). a_id a \<le> last_article_id (insert_articles db did m us)) \<and>
     (max_list (map af_rowid (tbl_articles_fts db)) = last_article_id db \<longrightarrow>
        tbl_articles_fts (insert_articles db did m us) =
          tbl_articles_fts db @ map (fts_row_of (document_name_of db did)) news \<and>
        max_list (map af_rowid (tbl_articles_fts (insert_articles db did m us))) =
          last_article_id (insert_articles db did m us))"
proof (induction us arbitrary: db)
  case Nil
  have "\<forall>a \<in> set (tbl_articles db). a_id a \<le> last_article_id db"
  proof
    fix a assume "a \<in> set (tbl_articles db)"
    then have "a_id a \<le> max_list (map a_id (tbl_articles db))"
      by (intro max_list_ge) simp
    then show "a_id a \<le> last_article_id db"
      by (simp add: last_article_id_def)
  qed
  then show ?case by simp
next
  case (Cons u us)
  define db1 where "db1 = insert_article db did (m (u_page_number u)) u"
  have step: "insert_articles db did m (u # us) = insert_articles db1 did m us"
    by (simp add: db1_def)
  from insert_article_rows [of db did "m (u_page_number u)" u] obtain a where
    a1: "tbl_articles db1 = tbl_articles db @ [a]" and a2: "a_id a = last_article_id db + 1"
    and a3: "a_document_id a = did" and a4: "same_unit a u"
    and a5: "last_article_id db1 = last_article_id db + 1"
    and a6: "tbl_articles_fts db1 = tbl_articles_fts db @
          [(fts_row_of (document_name_of db did) a)
             \<lparr>af_rowid := max_list (map af_rowid (tbl_articles_fts db)) + 1\<rparr>]"
    unfolding db1_def by (elim exE conjE)
  from Cons.IH [of db1] obtain news where
    n1: "tbl_articles (insert_articles db1 did m us) = tbl_articles db1 @ news"
    and n2: "\<forall>a \<in> set news. a_document_id a = did \<and> last_article_id db1 < a_id a"
    and n3: "list_all2 same_unit news us"
    and n4: "\<forall>a \<in> set (tbl_articles db1 @ news).
           a_id a \<le> last_article_id (insert_articles db1 did m us)"
    and n5: "max_list (map af_rowid (tbl_articles_fts db1)) = last_article_id db1 \<longrightarrow>
        tbl_articles_fts (insert_articles db1 did m us) =
          tbl_articles_fts db1 @ map (fts_row_of (document_name_of db1 did)) news \<and>
        max_list (map af_rowid (tbl_articles_fts (insert_articles db1 did m us))) =
          last_article_id (insert_articles db1 did m us)"
    by (elim exE conjE)
  have dn: "document_name_of db1 did = document_name_of db did"
    unfolding db1_def by (rule document_name_of_cong) (simp add: insert_article_tables)
  have f1: "tbl_articles (insert_articles db1 did m us) = tbl_articles db @ (a # news)"
    using a1 n1 by simp
  have f2: "\<forall>x \<in> set (a # news). a_document_id x = did \<and> last_article_id db < a_id x"
    using a2 a3 a5 n2 by auto
  have f3: "list_all2 same_unit (a # news) (u # us)"
    using a4 n3 by simp
  have f4: "\<forall>x \<in> set (tbl_articles db @ (a # news)).
      a_id x \<le> last_article_id (insert_articles db1 did m us)"
    using a1 n4 by simp
  have f5: "max_list (map af_rowid (tbl_articles_fts db)) = last_article_id db \<longrightarrow>
        tbl_articles_fts (insert_articles db1 did m us) =
          tbl_articles_fts db @ map (fts_row_of (document_name_of db did)) (a # news) \<and>
        max_list (map af_rowid (tbl_articles_fts (insert_articles db1 did m us))) =
          last_article_id (insert_articles db1 did m us)"
  proof
    assume al: "max_list (map af_rowid (tbl_articles_fts db)) = last_article_id db"
    have r: "(fts_row_of (document_name_of db did) a)
        \<lparr>af_rowid := max_list (map af_rowid (tbl_articles_fts db)) + 1\<rparr> =
        fts_row_of (document_name_of db did) a"
      unfolding al using a2 by (simp add: fts_row_of_def)
    have fts1: "tbl_articles_fts db1 =
        tbl_articles_fts db @ [fts_row_of (document_name_of db did) a]"
      using a6 unfolding r .
    have "0 \<le> last_article_id db"
      using max_list_nonneg [of "map af_rowid (tbl_articles_fts db)"] unfolding al .
    then have "max_list (map af_rowid (tbl_articles_fts db1)) = last_article_id db1"
      unfolding fts1 a5 using al a2 by (simp add: max_list_snoc fts_row_of_def)
    with n5 have "tbl_articles_fts (insert_articles db1 did m us) =
          tbl_articles_fts db1 @ map (fts_row_of (document_name_of db1 did)) news"
      and k: "max_list (map af_rowid (tbl_articles_fts (insert_articles db1 did m us))) =
          last_article_id (insert_articles db1 did m us)"
      by blast+
    then have "tbl_articles_fts (insert_articles db1 did m us) =
          tbl_articles_fts db @ map (fts_row_of (document_name_of db did)) (a # news)"
      unfolding dn fts1 by simp
    with k show "tbl_articles_fts (insert_articles db1 did m us) =
          tbl_articles_fts db @ map (fts_row_of (document_name_of db did)) (a # news) \<and>
        max_list (map af_rowid (tbl_articles_fts (insert_articles db1 did m us))) =
          last_article_id (insert_articles db1 did m us)"
      by (rule conjI [rotated])
  qed
  show ?case
    unfolding step
    by (intro exI [of _ "a # news"] conjI) (fact f1 f2 f3 f4 f5)+
qed

subsection \<open>The whole call\<close>

lemma delete_articles_fresh:
  "\<forall>a \<in> set (tbl_articles db). a_document_id a \<noteq> did \<Longrightarrow> delete_articles db did = Inr db"
  by (simp add: delete_articles_def)

lemma delete_pages_fresh:
  "\<forall>p \<in> set (tbl_pages db). p_document_id p \<noteq> did \<Longrightarrow> delete_pages db did = Inr db"
  by (simp add: delete_pages_def)

lemma next_document_id_fresh:
  "seq_documents db < next_document_id db"
  "d \<in> set (tbl_documents db) \<Longrightarrow> d_id d < next_document_id db"
  using next_rowid_gt_ids [of "d_id d" "map d_id (tbl_documents db)" "seq_documents db"]
  by (simp_all add: next_document_id_def next_rowid_gt_seq)

lemma wellformed_fresh:
  assumes "wellformed db"
  shows "\<forall>a \<in> set (tbl_articles db). a_document_id a \<noteq> next_document_id db"
    and "\<forall>p \<in> set (tbl_pages db). p_document_id p \<noteq> next_document_id db"
    and "page_numbers_of db (next_document_id db) = {}"
  using assms next_document_id_fresh(1) [of db]
  by (fastforce simp: wellformed_def page_numbers_of_def)+

text \<open>The call after the check of the path, when the session is wellformed and the parser returns.\<close>

lemma index_document_enhanced_parsed:
  assumes "path_exists fs path" and "wellformed (session conn)"
    and "parse_markdown_document_enhanced fs path name = Inr (pages, units)"
  shows "index_document_enhanced fs conn path name title =
     (case insert_pages (snd (replace_document (session conn) name title path))
             (next_document_id (session conn)) Map.empty pages of
        (Inl e, db4) \<Rightarrow> (Inl e, conn\<lparr>session := db4\<rparr>)
      | (Inr page_ids, db4) \<Rightarrow>
          (Inr (int (length units)),
           commit (conn\<lparr>session :=
             update_pages_count
               (insert_articles db4 (next_document_id (session conn)) page_ids units)
               (max_page_number pages) (next_document_id (session conn))\<rparr>)))"
proof -
  let ?db1 = "snd (replace_document (session conn) name title path)"
  let ?d = "next_document_id (session conn)"
  obtain db1 where r: "replace_document (session conn) name title path = (?d, db1)"
    by (metis replace_document_fst prod.collapse)
  then have s: "?db1 = db1"
    by simp
  have "delete_articles ?db1 ?d = Inr ?db1" "delete_pages ?db1 ?d = Inr ?db1"
    using wellformed_fresh [OF assms(2)]
    by (simp_all add: delete_articles_fresh delete_pages_fresh replace_document_tables)
  then have "delete_articles db1 ?d = Inr db1" "delete_pages db1 ?d = Inr db1"
    unfolding s by simp_all
  with assms(1,3) r show ?thesis
    unfolding s by (simp add: index_document_enhanced_def Let_def split: prod.splits sum.splits)
qed



text \<open>A failed call commits nothing.\<close>

lemma index_document_enhanced_failed:
  "fst (index_document_enhanced fs conn path name title) = Inl e \<Longrightarrow>
     persisted (snd (index_document_enhanced fs conn path name title)) = persisted conn"
  unfolding index_document_enhanced_def
  by (simp add: Let_def commit_def split: if_splits prod.splits sum.splits)

lemma basic_index_document_failed:
  "fst (index_document fs conn path name title) = Inl e \<Longrightarrow>
     persisted (snd (index_document fs conn path name title)) = persisted conn"
  unfolding index_document_def
  by (simp add: Let_def commit_def split: if_splits prod.splits sum.splits option.splits)

lemma index_document_enhanced_parse_failed:
  assumes "path_exists fs path" and "wellformed (session conn)"
    and "parse_markdown_document_enhanced fs path name = Inl e"
  shows "index_document_enhanced fs conn path name title =
     (Inl e, conn\<lparr>session := snd (replace_document (session conn) name title path)\<rparr>)"
proof -
  let ?db1 = "snd (replace_document (session conn) name title path)"
  let ?d = "next_document_id (session conn)"
  obtain db1 where r: "replace_document (session conn) name title path = (?d, db1)"
    by (metis replace_document_fst prod.collapse)
  then have s: "?db1 = db1"
    by simp
  have "delete_articles ?db1 ?d = Inr ?db1" "delete_pages ?db1 ?d = Inr ?db1"
    using wellformed_fresh [OF assms(2)]
    by (simp_all add: delete_articles_fresh delete_pages_fresh replace_document_tables)
  then have "delete_articles db1 ?d = Inr db1" "delete_pages db1 ?d = Inr db1"
    unfolding s by simp_all
  with assms(1,3) r show ?thesis
    unfolding s by (simp add: index_document_enhanced_def)
qed

subsection \<open>Wellformed databases\<close>

lemma wellformed_empty: "wellformed (session init_database)"
  by (simp add: wellformed_def init_database_def empty_database_def last_article_id_def
      max_list_def)

lemma wellformed_replace_document:
  assumes "wellformed db"
  shows "wellformed (snd (replace_document db name title path))"
  using assms next_document_id_fresh(1) [of db]
  by (fastforce simp: wellformed_def replace_document_tables last_article_id_def)

lemma wellformed_insert_page:
  assumes "insert_page db did page = Inr (pid, db')" and "did \<le> seq_documents db"
    and "wellformed db"
  shows "wellformed db'"
  using assms(2,3) unfolding wellformed_def last_article_id_def
  by (simp add: insert_page_tables [OF assms(1)])

lemma wellformed_insert_pages:
  "insert_pages db did m ps = (res, db') \<Longrightarrow> did \<le> seq_documents db \<Longrightarrow> wellformed db \<Longrightarrow>
     wellformed db'"
proof (induction ps arbitrary: db m)
  case Nil
  then show ?case by simp
next
  case (Cons page ps)
  show ?case
  proof (cases "insert_page db did page")
    case (Inl e)
    with Cons.prems show ?thesis by simp
  next
    case (Inr r)
    obtain pid db1 where r: "r = (pid, db1)" by (cases r)
    with Inr Cons.prems
    have i: "insert_pages db1 did (m(pc_page_number page \<mapsto> pid)) ps = (res, db')"
      by simp
    from Inr r have ip: "insert_page db did page = Inr (pid, db1)"
      by simp
    from wellformed_insert_page [OF ip Cons.prems(2,3)] Cons.prems(2)
      insert_page_tables(4) [OF ip] Cons.IH [OF i]
    show ?thesis by simp
  qed
qed

lemma wellformed_insert_articles:
  assumes "did \<le> seq_documents db" and "wellformed db"
  shows "wellformed (insert_articles db did m us)"
proof -
  from insert_articles_rows [of db did m us] obtain news where
    n1: "tbl_articles (insert_articles db did m us) = tbl_articles db @ news"
    and n2: "\<forall>a \<in> set news. a_document_id a = did \<and> last_article_id db < a_id a"
    and n5: "max_list (map af_rowid (tbl_articles_fts db)) = last_article_id db \<longrightarrow>
        tbl_articles_fts (insert_articles db did m us) =
          tbl_articles_fts db @ map (fts_row_of (document_name_of db did)) news \<and>
        max_list (map af_rowid (tbl_articles_fts (insert_articles db did m us))) =
          last_article_id (insert_articles db did m us)"
    by (elim exE conjE)
  from assms(2) have "max_list (map af_rowid (tbl_articles_fts db)) = last_article_id db"
    by (simp add: wellformed_def)
  with n5 have "max_list (map af_rowid (tbl_articles_fts (insert_articles db did m us))) =
      last_article_id (insert_articles db did m us)"
    by blast
  moreover from assms n1 n2
  have "\<forall>a \<in> set (tbl_articles (insert_articles db did m us)).
      a_document_id a \<le> seq_documents (insert_articles db did m us)"
    by (auto simp: wellformed_def insert_articles_tables)
  moreover from assms(2)
  have "\<forall>p \<in> set (tbl_pages (insert_articles db did m us)).
      p_document_id p \<le> seq_documents (insert_articles db did m us)"
    by (simp add: wellformed_def insert_articles_tables)
  ultimately show ?thesis
    by (simp add: wellformed_def)
qed

lemma wellformed_update_pages_count:
  "wellformed db \<Longrightarrow> wellformed (update_pages_count db n d)"
  by (simp add: wellformed_def update_pages_count_def last_article_id_def)

text \<open>Every call of \<open>index_document_enhanced\<close>, failed or not, leaves the session wellformed.\<close>

lemma wellformed_index_document_enhanced:
  assumes "wellformed (session conn)"
  shows "wellformed (session (snd (index_document_enhanced fs conn path name title)))"
proof (cases "path_exists fs path")
  case False
  with assms show ?thesis by (simp add: index_document_enhanced_def)
next
  case True
  let ?db1 = "snd (replace_document (session conn) name title path)"
  let ?d = "next_document_id (session conn)"
  have w1: "wellformed ?db1"
    by (rule wellformed_replace_document [OF assms])
  have d1: "?d \<le> seq_documents ?db1"
    by (simp add: replace_document_tables)
  show ?thesis
  proof (cases "parse_markdown_document_enhanced fs path name")
    case (Inl e)
    from index_document_enhanced_parse_failed [OF True assms Inl] w1 show ?thesis
      by simp
  next
    case (Inr pu)
    obtain pages units where pu: "pu = (pages, units)" by (cases pu)
    obtain res db4 where ip: "insert_pages ?db1 ?d Map.empty pages = (res, db4)"
      by (cases "insert_pages ?db1 ?d Map.empty pages")
    from wellformed_insert_pages [OF ip d1 w1] have w4: "wellformed db4" .
    from insert_pages_tables [OF ip] d1 have d4: "?d \<le> seq_documents db4"
      by simp
    note u = index_document_enhanced_parsed [OF True assms Inr [unfolded pu], of title]
    show ?thesis
    proof (cases res)
      case (Inl e)
      with u ip w4 show ?thesis by simp
    next
      case (Inr page_ids)
      with u ip wellformed_update_pages_count [OF wellformed_insert_articles [OF d4 w4]]
      show ?thesis by (simp add: commit_def)
    qed
  qed
qed

subsection \<open>Pages with the same number\<close>

text \<open>
  C9, as stated, fails: a document with two markers \<open>## Page 1\<close> is segmented into two
  pages with the number 1, and indexing it into a new database raises IntegrityError at
  the second page; the first page stays in the session and nothing is committed.
\<close>

theorem duplicate_page_number_raises:
  "map_sum id (\<lambda>r. map pc_page_number (fst r))
     (parse_markdown_document_enhanced (\<lambda>path. Text repeated_page_document) [112] [100]) =
     Inr [1, 1]
   \<and> fst (index_document_enhanced (\<lambda>path. Text repeated_page_document) init_database
            [112] [100] []) = Inl IntegrityError
   \<and> map p_content
       (tbl_pages (session (snd (index_document_enhanced (\<lambda>path. Text repeated_page_document)
           init_database [112] [100] [])))) = [body_line]
   \<and> persisted (snd (index_document_enhanced (\<lambda>path. Text repeated_page_document)
        init_database [112] [100] [])) = empty_database"
  by code_simp

text \<open>
  C9, amended. When the segmentation of a document gives pages whose numbers are SQLite
  integers, on a connection whose session is wellformed: if two pages carry the same
  number, persisting the later one violates the unique (document, page number) key,
  \<open>index_document_enhanced\<close> raises IntegrityError and commits nothing; if the numbers are
  distinct, in whatever order, the call succeeds and the committed pages of the document
  are the segmented pages, in document order. Page numbers need not be sequential, but
  they must be unique within the document.
\<close>

theorem page_numbers_must_be_unique:
  assumes "wellformed (session conn)" and "path_exists fs file_path"
    and "parse_markdown_document_enhanced fs file_path document_name = Inr (pages, units)"
    and "\<forall>p \<in> set pages. in_int64 (pc_page_number p)"
  shows "(\<not> distinct (map pc_page_number pages) \<longrightarrow>
            fst (index_document_enhanced fs conn file_path document_name title) =
              Inl IntegrityError \<and>
            persisted (snd (index_document_enhanced fs conn file_path document_name title)) =
              persisted conn)
       \<and> (distinct (map pc_page_number pages) \<longrightarrow>
            fst (index_document_enhanced fs conn file_path document_name title) =
              Inr (int (length units)) \<and>
            map (\<lambda>p. (p_page_number p, p_content p))
              (filter (\<lambda>p. p_document_id p = next_document_id (session conn))
                 (tbl_pages (persisted
                    (snd (index_document_enhanced fs conn file_path document_name title))))) =
              map (\<lambda>p. (pc_page_number p, pc_content p)) pages)"
proof -
  let ?db1 = "snd (replace_document (session conn) document_name title file_path)"
  let ?d = "next_document_id (session conn)"
  let ?ix = "index_document_enhanced fs conn file_path document_name title"
  obtain res db4 where ip: "insert_pages ?db1 ?d Map.empty pages = (res, db4)"
    by (cases "insert_pages ?db1 ?d Map.empty pages")
  note u = index_document_enhanced_parsed [OF assms(2,1,3), of title]
  have none: "page_numbers_of ?db1 ?d = {}"
    using wellformed_fresh(3) [OF assms(1)]
    by (simp add: page_numbers_of_def replace_document_tables)
  note r = insert_pages_result [OF assms(4), of ?db1 ?d Map.empty, unfolded ip fst_conv none]
  have fresh: "filter (\<lambda>p. p_document_id p = ?d) (tbl_pages (session conn)) = []"
    using wellformed_fresh(2) [OF assms(1)] by (simp add: filter_empty_conv)
  show ?thesis
  proof (intro conjI impI)
    assume "\<not> distinct (map pc_page_number pages)"
    with r have "res = Inl IntegrityError"
      by simp
    with u ip show "fst ?ix = Inl IntegrityError" and "persisted (snd ?ix) = persisted conn"
      by simp_all
  next
    assume "distinct (map pc_page_number pages)"
    with r obtain page_ids where ok: "res = Inr page_ids"
      by (cases res) simp_all
    with u ip show "fst ?ix = Inr (int (length units))"
      by simp
    from insert_pages_rows [OF ip] ok obtain rows where
      rows: "tbl_pages db4 = tbl_pages ?db1 @ rows" "\<forall>p \<in> set rows. p_document_id p = ?d"
        "map (\<lambda>p. (p_page_number p, p_content p)) rows =
           map (\<lambda>p. (pc_page_number p, pc_content p)) pages"
      by auto
    from rows(2) have "filter (\<lambda>p. p_document_id p = ?d) rows = rows"
      by (simp add: filter_id_conv)
    with u ip ok rows(1,3) fresh
    show "map (\<lambda>p. (p_page_number p, p_content p))
        (filter (\<lambda>p. p_document_id p = ?d) (tbl_pages (persisted (snd ?ix)))) =
        map (\<lambda>p. (pc_page_number p, pc_content p)) pages"
      by (simp add: commit_def update_pages_count_def insert_articles_tables
          replace_document_tables)
  qed
qed

theorem page_numbers_must_be_unique_witness:
  "fst (index_document_enhanced (\<lambda>path. Text repeated_page_document) scenario_a_indexed
          [112] [100, 111, 99] []) = Inl IntegrityError
   \<and> fst (index_document_enhanced (\<lambda>path. Text unordered_page_document) scenario_a_indexed
          [112] [100, 111, 99] []) = Inr 0
   \<and> map (\<lambda>p. (p_page_number p, p_content p))
       (filter (\<lambda>p. p_document_id p = 2)
          (tbl_pages (persisted
             (snd (index_document_enhanced (\<lambda>path. Text unordered_page_document)
                scenario_a_indexed [112] [100, 111, 99] []))))) =
       [(7, body_line), (3, [1578, 1578, 1605, 1577, 32, 1575, 1604, 1606, 1589])]"
proof -
  have w: "wellformed (session scenario_a_indexed)"
    unfolding scenario_a_indexed_def
    by (rule wellformed_index_document_enhanced [OF wellformed_empty])
  have e: "path_exists (\<lambda>path. Text repeated_page_document) [112]"
    "path_exists (\<lambda>path. Text unordered_page_document) [112]"
    by (simp_all add: path_exists_def)
  have p1: "parse_markdown_document_enhanced (\<lambda>path. Text repeated_page_document) [112]
      [100, 111, 99] =
      Inr (fst (projr (parse_markdown_document_enhanced (\<lambda>path. Text repeated_page_document)
                  [112] [100, 111, 99])),
           snd (projr (parse_markdown_document_enhanced (\<lambda>path. Text repeated_page_document)
                  [112] [100, 111, 99])))"
    (is "?P1 = Inr (?pages1, ?units1)")
  proof -
    have "\<not> isl ?P1" by code_simp
    then show ?thesis by simp
  qed
  have p2: "parse_markdown_document_enhanced (\<lambda>path. Text unordered_page_document) [112]
      [100, 111, 99] =
      Inr (fst (projr (parse_markdown_document_enhanced (\<lambda>path. Text unordered_page_document)
                  [112] [100, 111, 99])),
           snd (projr (parse_markdown_document_enhanced (\<lambda>path. Text unordered_page_document)
                  [112] [100, 111, 99])))"
    (is "?P2 = Inr (?pages2, ?units2)")
  proof -
    have "\<not> isl ?P2" by code_simp
    then show ?thesis by simp
  qed
  have i1: "\<forall>p \<in> set ?pages1. in_int64 (pc_page_number p)"
    and d1: "\<not> distinct (map pc_page_number ?pages1)"
    by code_simp+
  have i2: "\<forall>p \<in> set ?pages2. in_int64 (pc_page_number p)"
    and d2: "distinct (map pc_page_number ?pages2)"
    and v2: "int (length ?units2) = 0"
      "map (\<lambda>p. (pc_page_number p, pc_content p)) ?pages2 =
         [(7, body_line), (3, [1578, 1578, 1605, 1577, 32, 1575, 1604, 1606, 1589])]"
    and n: "next_document_id (session scenario_a_indexed) = 2"
    by code_simp+
  note t1 = mp [OF conjunct1 [OF page_numbers_must_be_unique [OF w e(1) p1 i1, of "[]"]] d1]
  note t2 = mp [OF conjunct2 [OF page_numbers_must_be_unique [OF w e(2) p2 i2, of "[]"]] d2]
  from conjunct1 [OF t1] t2 show ?thesis
    unfolding v2 n by simp
qed

subsection \<open>Failed calls\<close>

text \<open>
  C2, as stated, fails. The document of Scenario A is indexed and committed. Indexing the
  same name again from a file that is not UTF-8 raises UnicodeDecodeError after the
  document row was replaced: the connection now holds the document under the new key 2
  with page count 0, its one unit still refers to key 1, and a search that found the unit
  before the call finds nothing after it. Nothing is rolled back, so when another document
  is indexed next, its commit makes this state of the first document the persisted one.
\<close>

theorem failed_index_leaves_partial_state:
  "fst failed_reindex = Inl UnicodeDecodeError
   \<and> document_entry (persisted scenario_a_indexed) [108, 97, 119] = [(1, 1)]
   \<and> map_sum id (map r_id)
       (search_enhanced (words_engine af_content af_rowid) plain_re scenario_a_indexed
          [1606, 1589] 10) = Inr [1]
   \<and> document_entry (session (snd failed_reindex)) [108, 97, 119] = [(2, 0)]
   \<and> search_enhanced (words_engine af_content af_rowid) plain_re (snd failed_reindex)
       [1606, 1589] 10 = Inr []
   \<and> document_entry (persisted after_next_commit) [108, 97, 119] = [(2, 0)]
   \<and> map (\<lambda>a. (a_id a, a_document_id a)) (tbl_articles (persisted after_next_commit)) =
       [(1, 1)]"
  by code_simp

text \<open>
  C2, amended. If \<open>index_document\<close> fails because the path does not exist, the connection
  is exactly as before the call. If it fails at any later point, the call commits nothing:
  the persisted database is as before the call. But nothing is rolled back either: when
  the file cannot be read or decoded, on a wellformed session, the session keeps the
  replacement of the document row, which later reads of the connection see and the next
  commit persists. The first three parts hold for both engines.
\<close>

theorem failed_index_commits_nothing:
  "(\<not> path_exists fs file_path \<longrightarrow>
      index_document_enhanced fs conn file_path document_name title =
        (Inl FileNotFoundError, conn) \<and>
      index_document fs conn' file_path document_name title = (Inl FileNotFoundError, conn'))
   \<and> (fst (index_document_enhanced fs conn file_path document_name title) = Inl e \<longrightarrow>
        persisted (snd (index_document_enhanced fs conn file_path document_name title)) =
          persisted conn)
   \<and> (fst (index_document fs conn' file_path document_name title) = Inl e' \<longrightarrow>
        persisted (snd (index_document fs conn' file_path document_name title)) =
          persisted conn')
   \<and> (path_exists fs file_path \<and> wellformed (session conn) \<and>
        parse_markdown_document_enhanced fs file_path document_name = Inl e'' \<longrightarrow>
        index_document_enhanced fs conn file_path document_name title =
          (Inl e'',
           conn\<lparr>session :=
             snd (replace_document (session conn) document_name title file_path)\<rparr>))"
proof (intro conjI impI)
  assume "\<not> path_exists fs file_path"
  then show "index_document_enhanced fs conn file_path document_name title =
      (Inl FileNotFoundError, conn)"
    and "index_document fs conn' file_path document_name title = (Inl FileNotFoundError, conn')"
    by (simp_all add: index_document_enhanced_def index_document_def)
next
  assume "fst (index_document_enhanced fs conn file_path document_name title) = Inl e"
  then show "persisted (snd (index_document_enhanced fs conn file_path document_name title)) =
      persisted conn"
    by (rule index_document_enhanced_failed)
next
  assume "fst (index_document fs conn' file_path document_name title) = Inl e'"
  then show "persisted (snd (index_document fs conn' file_path document_name title)) =
      persisted conn'"
    by (rule basic_index_document_failed)
next
  assume "path_exists fs file_path \<and> wellformed (session conn) \<and>
      parse_markdown_document_enhanced fs file_path document_name = Inl e''"
  then show "index_document_enhanced fs conn file_path document_name title =
      (Inl e'',
       conn\<lparr>session := snd (replace_document (session conn) document_name title file_path)\<rparr>)"
    by (intro index_document_enhanced_parse_failed) simp_all
qed

theorem failed_index_commits_nothing_witness:
  "persisted (snd failed_reindex) = persisted scenario_a_indexed
   \<and> failed_reindex =
       (Inl UnicodeDecodeError,
        scenario_a_indexed\<lparr>session :=
          snd (replace_document (session scenario_a_indexed) [108, 97, 119] [] [100, 111, 99])\<rparr>)
   \<and> index_document_enhanced (\<lambda>path. Missing) scenario_a_indexed [100, 111, 99]
       [108, 97, 119] [] = (Inl FileNotFoundError, scenario_a_indexed)"
proof -
  note t = failed_index_commits_nothing [where conn = scenario_a_indexed
      and file_path = "[100, 111, 99]" and document_name = "[108, 97, 119]" and title = "[]"]
  have f: "fst (index_document_enhanced (\<lambda>path. Undecodable) scenario_a_indexed
      [100, 111, 99] [108, 97, 119] []) = Inl UnicodeDecodeError"
    by code_simp
  have w: "wellformed (session scenario_a_indexed)"
    unfolding scenario_a_indexed_def
    by (rule wellformed_index_document_enhanced [OF wellformed_empty])
  have p: "path_exists (\<lambda>path. Undecodable) [100, 111, 99] \<and> wellformed (session scenario_a_indexed) \<and>
      parse_markdown_document_enhanced (\<lambda>path. Undecodable) [100, 111, 99] [108, 97, 119] =
        Inl UnicodeDecodeError"
    using w by (simp add: path_exists_def parse_markdown_document_enhanced_def read_text_def)
  have m: "\<not> path_exists (\<lambda>path. Missing) [100, 111, 99]"
    by (simp add: path_exists_def)
  note t2 = mp [OF conjunct1 [OF conjunct2 [OF t [where fs = "\<lambda>path. Undecodable"]]] f]
  note t4 = mp [OF conjunct2 [OF conjunct2 [OF conjunct2 [OF t [where fs = "\<lambda>path. Undecodable"]]]] p]
  note t1 = conjunct1 [OF mp [OF conjunct1 [OF t [where fs = "\<lambda>path. Missing"]] m]]
  from t2 t4 t1 show ?thesis
    unfolding failed_reindex_def by blast
qed

subsection \<open>Indexing a name again\<close>

text \<open>What a successful call has done, statement by statement.\<close>

lemma index_document_enhanced_success:
  assumes "index_document_enhanced fs conn path name title = (Inr n, conn')"
  shows "\<exists>pages units page_ids db4.
     parse_markdown_document_enhanced fs path name = Inr (pages, units) \<and>
     (\<forall>a \<in> set (tbl_articles (session conn)).
        a_document_id a \<noteq> next_document_id (session conn)) \<and>
     insert_pages (snd (replace_document (session conn) name title path))
       (next_document_id (session conn)) Map.empty pages = (Inr page_ids, db4) \<and>
     conn' = commit (conn\<lparr>session :=
       update_pages_count
         (insert_articles db4 (next_document_id (session conn)) page_ids units)
         (max_page_number pages) (next_document_id (session conn))\<rparr>)"
proof (cases "path_exists fs path")
  case False
  with assms show ?thesis by (simp add: index_document_enhanced_def)
next
  case True
  let ?d = "next_document_id (session conn)"
  obtain db1 where r: "replace_document (session conn) name title path = (?d, db1)"
    by (metis replace_document_fst prod.collapse)
  then have s: "snd (replace_document (session conn) name title path) = db1"
    by simp
  have ta: "tbl_articles db1 = tbl_articles (session conn)"
    using replace_document_tables(2) [of "session conn" name title path] unfolding s .
  show ?thesis
  proof (cases "delete_articles db1 ?d")
    case (Inl e1)
    with True r assms show ?thesis by (simp add: index_document_enhanced_def)
  next
    case da: (Inr db2)
    then have db2: "db2 = db1"
      and fresh: "\<forall>a \<in> set (tbl_articles (session conn)). a_document_id a \<noteq> ?d"
      unfolding ta [symmetric] by (auto simp: delete_articles_def split: if_splits)
    show ?thesis
    proof (cases "delete_pages db2 ?d")
      case (Inl e2)
      with True r da assms show ?thesis by (simp add: index_document_enhanced_def)
    next
      case dp: (Inr db3)
      then have db3: "db3 = db1"
        unfolding db2 by (auto simp: delete_pages_def split: if_splits)
      show ?thesis
      proof (cases "parse_markdown_document_enhanced fs path name")
        case (Inl e3)
        with True r da dp assms show ?thesis by (simp add: index_document_enhanced_def)
      next
        case (Inr pu)
        obtain pages units where pu: "pu = (pages, units)" by (cases pu)
        obtain res db4 where ip: "insert_pages db1 ?d Map.empty pages = (res, db4)"
          by (cases "insert_pages db1 ?d Map.empty pages")
        show ?thesis
        proof (cases res)
          case (Inl e4)
          with True r da dp Inr pu ip assms db3 show ?thesis
            by (simp add: index_document_enhanced_def)
        next
          case ok: (Inr page_ids)
          with True r da dp Inr pu ip assms db3
          have "conn' = commit (conn\<lparr>session :=
              update_pages_count (insert_articles db4 ?d page_ids units)
                (max_page_number pages) ?d\<rparr>)"
            by (simp add: index_document_enhanced_def Let_def)
          with Inr pu fresh ip ok show ?thesis
            unfolding s by blast
        qed
      qed
    qed
  qed
qed

lemma article_ids_bounded:
  "a \<in> set (tbl_articles db) \<Longrightarrow> a_id a \<le> last_article_id db"
  using max_list_ge [of "a_id a" "map a_id (tbl_articles db)"]
  by (simp add: last_article_id_def)

lemma document_name_of_new:
  assumes "tbl_documents db = old @ [\<lparr>d_id = d, d_name = name, d_title = title,
      d_file_path = path, d_pages_count = 0\<rparr>]"
    and "\<forall>x \<in> set old. d_id x \<noteq> d"
  shows "document_name_of db d = Some name"
  using assms by (simp add: document_name_of_def filter_empty_conv [THEN iffD2])

text \<open>The articles and the documents after a successful call.\<close>

lemma index_document_enhanced_effect:
  assumes "index_document_enhanced fs conn path name title = (Inr n, conn')"
  shows "\<exists>news pages units.
      parse_markdown_document_enhanced fs path name = Inr (pages, units) \<and>
      tbl_articles (session conn') = tbl_articles (session conn) @ news \<and>
      list_all2 same_unit news units \<and>
      (\<forall>a \<in> set news. a_document_id a = next_document_id (session conn) \<and>
                       last_article_id (session conn) < a_id a) \<and>
      (\<forall>a \<in> set (tbl_articles (session conn)).
          a_document_id a \<noteq> next_document_id (session conn)) \<and>
      (\<forall>a \<in> set (tbl_articles (session conn')). a_id a \<le> last_article_id (session conn')) \<and>
      (wellformed (session conn) \<longrightarrow>
         tbl_articles_fts (session conn') =
           tbl_articles_fts (session conn) @ map (fts_row_of (Some name)) news)"
    and "\<forall>x \<in> set (tbl_documents (session conn')).
      (d_name x = name \<longleftrightarrow> d_id x = next_document_id (session conn)) \<and>
      (d_id x \<noteq> next_document_id (session conn) \<longrightarrow>
         x \<in> set (tbl_documents (session conn)))"
    and "\<exists>x \<in> set (tbl_documents (session conn')). d_id x = next_document_id (session conn)"
proof -
  let ?d = "next_document_id (session conn)"
  let ?db1 = "snd (replace_document (session conn) name title path)"
  from index_document_enhanced_success [OF assms] obtain pages units page_ids db4 where
    p: "parse_markdown_document_enhanced fs path name = Inr (pages, units)"
    and fresh: "\<forall>a \<in> set (tbl_articles (session conn)). a_document_id a \<noteq> ?d"
    and ip: "insert_pages ?db1 ?d Map.empty pages = (Inr page_ids, db4)"
    and c: "conn' = commit (conn\<lparr>session :=
       update_pages_count (insert_articles db4 ?d page_ids units) (max_page_number pages) ?d\<rparr>)"
    by (elim exE conjE)
  let ?db5 = "insert_articles db4 ?d page_ids units"
  note t4 = insert_pages_tables [OF ip]
  have docs4: "tbl_documents db4 =
      filter (\<lambda>d. d_name d \<noteq> name) (tbl_documents (session conn)) @
      [\<lparr>d_id = ?d, d_name = name, d_title = title, d_file_path = path, d_pages_count = 0\<rparr>]"
    using t4 by (simp add: replace_document_tables)
  have arts4: "tbl_articles db4 = tbl_articles (session conn)"
    and fts4: "tbl_articles_fts db4 = tbl_articles_fts (session conn)"
    and seq4: "seq_articles db4 = seq_articles (session conn)"
    using t4 by (simp_all add: replace_document_tables)
  have last4: "last_article_id db4 = last_article_id (session conn)"
    by (simp add: last_article_id_def arts4 seq4)
  have old_ids: "\<forall>x \<in> set (filter (\<lambda>d. d_name d \<noteq> name) (tbl_documents (session conn))).
      d_id x \<noteq> ?d"
    using next_document_id_fresh(2) [of _ "session conn"] by fastforce
  have dn: "document_name_of db4 ?d = Some name"
    by (rule document_name_of_new [OF docs4 old_ids])
  from insert_articles_rows [of db4 ?d page_ids units] obtain news where
    n1: "tbl_articles ?db5 = tbl_articles db4 @ news"
    and n2: "\<forall>a \<in> set news. a_document_id a = ?d \<and> last_article_id db4 < a_id a"
    and n3: "list_all2 same_unit news units"
    and n4: "\<forall>a \<in> set (tbl_articles db4 @ news). a_id a \<le> last_article_id ?db5"
    and n5: "max_list (map af_rowid (tbl_articles_fts db4)) = last_article_id db4 \<longrightarrow>
        tbl_articles_fts ?db5 =
          tbl_articles_fts db4 @ map (fts_row_of (document_name_of db4 ?d)) news \<and>
        max_list (map af_rowid (tbl_articles_fts ?db5)) = last_article_id ?db5"
    by (elim exE conjE)
  have s_arts: "tbl_articles (session conn') = tbl_articles ?db5"
    and s_fts: "tbl_articles_fts (session conn') = tbl_articles_fts ?db5"
    and s_last: "last_article_id (session conn') = last_article_id ?db5"
    and s_docs: "tbl_documents (session conn') =
      map (\<lambda>x. if d_id x = ?d then x\<lparr>d_pages_count := max_page_number pages\<rparr> else x)
        (tbl_documents db4)"
    unfolding c
    by (simp_all add: commit_def update_pages_count_def last_article_id_def
        insert_articles_tables)
  have f1: "tbl_articles (session conn') = tbl_articles (session conn) @ news"
    unfolding s_arts n1 arts4 ..
  have f4: "\<forall>a \<in> set news. a_document_id a = ?d \<and> last_article_id (session conn) < a_id a"
    using n2 unfolding last4 .
  have f6: "\<forall>a \<in> set (tbl_articles (session conn')). a_id a \<le> last_article_id (session conn')"
    using n4 unfolding s_arts s_last n1 .
  have f7: "wellformed (session conn) \<longrightarrow>
      tbl_articles_fts (session conn') =
        tbl_articles_fts (session conn) @ map (fts_row_of (Some name)) news"
  proof
    assume "wellformed (session conn)"
    then have "max_list (map af_rowid (tbl_articles_fts db4)) = last_article_id db4"
      unfolding fts4 last4 by (simp add: wellformed_def)
    with n5 show "tbl_articles_fts (session conn') =
        tbl_articles_fts (session conn) @ map (fts_row_of (Some name)) news"
      unfolding s_fts dn fts4 by blast
  qed
  show "\<exists>news pages units.
      parse_markdown_document_enhanced fs path name = Inr (pages, units) \<and>
      tbl_articles (session conn') = tbl_articles (session conn) @ news \<and>
      list_all2 same_unit news units \<and>
      (\<forall>a \<in> set news. a_document_id a = ?d \<and> last_article_id (session conn) < a_id a) \<and>
      (\<forall>a \<in> set (tbl_articles (session conn)). a_document_id a \<noteq> ?d) \<and>
      (\<forall>a \<in> set (tbl_articles (session conn')). a_id a \<le> last_article_id (session conn')) \<and>
      (wellformed (session conn) \<longrightarrow>
         tbl_articles_fts (session conn') =
           tbl_articles_fts (session conn) @ map (fts_row_of (Some name)) news)"
    by (intro exI [of _ news] exI [of _ pages] exI [of _ units] conjI)
      (fact p f1 n3 f4 fresh f6 f7)+
  show "\<forall>x \<in> set (tbl_documents (session conn')).
      (d_name x = name \<longleftrightarrow> d_id x = ?d) \<and>
      (d_id x \<noteq> ?d \<longrightarrow> x \<in> set (tbl_documents (session conn)))"
    unfolding s_docs docs4 using old_ids by auto
  show "\<exists>x \<in> set (tbl_documents (session conn')). d_id x = ?d"
    unfolding s_docs docs4 by simp
qed

subsection \<open>The rows of a search\<close>

lemma list_all2_set1: "list_all2 P xs ys \<Longrightarrow> x \<in> set xs \<Longrightarrow> \<exists>y \<in> set ys. P x y"
  by (induction rule: list_all2_induct) auto

lemma list_all2_set2: "list_all2 P xs ys \<Longrightarrow> y \<in> set ys \<Longrightarrow> \<exists>x \<in> set xs. P x y"
  by (induction rule: list_all2_induct) auto

lemma highlight_rows_results:
  "highlight_rows E M db toks query rows = Inr results \<Longrightarrow>
     list_all2 (\<lambda>row r. \<exists>h. r = result_of E db toks row h) rows results"
proof (induction rows arbitrary: results)
  case Nil
  then show ?case by simp
next
  case (Cons row rows)
  from Cons.prems obtain h rs where
    "highlight_rows E M db toks query rows = Inr rs"
    and "results = result_of E db toks row h # rs"
    by (auto split: sum.splits)
  with Cons.IH show ?case by auto
qed

lemma search_rows_set:
  "set (search_rows E db toks) =
     {(f, a, d). f \<in> set (tbl_articles_fts db) \<and> fts5_matches E toks f \<and>
        a \<in> set (tbl_articles db) \<and> a_id a = af_rowid f \<and>
        d \<in> set (tbl_documents db) \<and> d_id d = a_document_id a}"
  unfolding search_rows_def by (auto split: if_splits)

lemma search_enhanced_rows:
  assumes "search_enhanced E M conn query limit = Inr results"
  shows "\<exists>toks rows. fts5_match_expr E query = Inr toks \<and>
     rows = apply_limit limit (search_rows E (session conn) toks) \<and>
     list_all2 (\<lambda>row r. \<exists>h. r = result_of E (session conn) toks row h) rows results"
proof -
  from assms obtain toks where t: "fts5_match_expr E query = Inr toks"
    and h: "highlight_rows E M (session conn) toks query
       (apply_limit limit (search_rows E (session conn) toks)) = Inr results"
    by (auto simp: search_enhanced_def split: if_splits sum.splits)
  from highlight_rows_results [OF h] t show ?thesis by blast
qed

text \<open>Every result is a joined row: an article with a document that holds its key.\<close>

lemma search_enhanced_sound:
  assumes "search_enhanced E M conn query limit = Inr results" and "r \<in> set results"
  shows "\<exists>a \<in> set (tbl_articles (session conn)). \<exists>d \<in> set (tbl_documents (session conn)).
     d_id d = a_document_id a \<and> r_id r = a_id a \<and> r_content r = a_content a \<and>
     r_document_name r = d_name d"
proof -
  from search_enhanced_rows [OF assms(1)] obtain toks rows where
    rows: "rows = apply_limit limit (search_rows E (session conn) toks)"
    and l: "list_all2 (\<lambda>row r. \<exists>h. r = result_of E (session conn) toks row h) rows results"
    by blast
  from list_all2_set2 [OF l assms(2)] obtain row h where
    row: "row \<in> set rows" and r: "r = result_of E (session conn) toks row h"
    by blast
  from row rows have "row \<in> set (search_rows E (session conn) toks)"
    by (auto simp: apply_limit_def dest: in_set_takeD split: if_splits)
  then obtain f a d where "row = (f, a, d)" "a \<in> set (tbl_articles (session conn))"
    "d \<in> set (tbl_documents (session conn))" "d_id d = a_document_id a"
    unfolding search_rows_set by blast
  with r show ?thesis
    by (auto simp: result_of_def)
qed

text \<open>Without a limit, every article whose row in the index matches is a result.\<close>

lemma search_enhanced_complete:
  assumes "search_enhanced E M conn query limit = Inr results"
    and "limit < 0 \<or> int (length results) < limit"
    and "fts5_match_expr E query = Inr toks"
    and "f \<in> set (tbl_articles_fts (session conn))" and "fts5_matches E toks f"
    and "a \<in> set (tbl_articles (session conn))" and "a_id a = af_rowid f"
    and "d \<in> set (tbl_documents (session conn))" and "d_id d = a_document_id a"
  shows "\<exists>r \<in> set results. r_id r = a_id a \<and> r_content r = a_content a \<and>
     r_document_name r = d_name d"
proof -
  from search_enhanced_rows [OF assms(1)] assms(3) have
    l0: "list_all2 (\<lambda>row r. \<exists>h. r = result_of E (session conn) toks row h)
          (apply_limit limit (search_rows E (session conn) toks)) results"
    by auto
  have "apply_limit limit (search_rows E (session conn) toks) =
      search_rows E (session conn) toks"
  proof (cases "limit < 0")
    case True
    then show ?thesis by (simp add: apply_limit_def)
  next
    case False
    with assms(2) have "length results < nat limit"
      by simp
    moreover from l0 False
    have "length results = min (length (search_rows E (session conn) toks)) (nat limit)"
      by (auto simp: apply_limit_def dest: list_all2_lengthD)
    ultimately show ?thesis
      using False by (simp add: apply_limit_def)
  qed
  with l0 have
    l: "list_all2 (\<lambda>row r. \<exists>h. r = result_of E (session conn) toks row h)
          (search_rows E (session conn) toks) results"
    by simp
  from assms(4-9) have "(f, a, d) \<in> set (search_rows E (session conn) toks)"
    unfolding search_rows_set by blast
  from list_all2_set1 [OF l this] obtain r h where
    "r \<in> set results" and "r = result_of E (session conn) toks (f, a, d) h"
    by blast
  then show ?thesis
    by (intro bexI [of _ r]) (simp_all add: result_of_def)
qed


text \<open>After the second call the units of the name are the rows the second call inserted.\<close>

lemma units_of_reindexed:
  assumes "index_document_enhanced fs conn path name title = (Inr n, conn')"
    and "tbl_articles (session conn') = tbl_articles (session conn) @ news"
    and "\<forall>a \<in> set news. a_document_id a = next_document_id (session conn)"
    and "\<forall>a \<in> set (tbl_articles (session conn)).
           a_document_id a \<noteq> next_document_id (session conn)"
  shows "units_of (session conn') name = news"
proof -
  let ?d = "next_document_id (session conn)"
  note docs = index_document_enhanced_effect(2,3) [OF assms(1)]
  have "(\<lambda>a. \<exists>d \<in> set (tbl_documents (session conn')). d_name d = name \<and> d_id d = a_document_id a)
      = (\<lambda>a. a_document_id a = ?d)"
    using docs by (intro ext) metis
  then have "units_of (session conn') name =
      filter (\<lambda>a. a_document_id a = ?d) (tbl_articles (session conn) @ news)"
    unfolding units_of_def assms(2) by (rule arg_cong)
  also have "\<dots> = news"
    using assms(3,4) by (simp add: filter_empty_conv filter_id_conv)
  finally show ?thesis .
qed

text \<open>
  C1. A document name is indexed twice, with whatever file contents, and both calls return.
  Then the units of the name are exactly the units of the second content, in order. A
  search after the second call returns no unit that the first call inserted; every result
  under the name is one of the units of the second content; and, on a connection whose
  session was wellformed before the first call, every unit of the second content whose row
  in the index matches the query is among the results, as long as the limit is not reached.
\<close>

theorem reindex_replaces_units:
  assumes "index_document_enhanced fs1 c0 path1 name title1 = (Inr n1, c1)"
    and "index_document_enhanced fs2 c1 path2 name title2 = (Inr n2, c2)"
  shows "(\<exists>pages units.
            parse_markdown_document_enhanced fs2 path2 name = Inr (pages, units) \<and>
            list_all2 same_unit (units_of (session c2) name) units)
       \<and> (search_enhanced E M c2 query limit = Inr results \<longrightarrow>
            (\<forall>r \<in> set results.
               \<forall>a \<in> set (tbl_articles (session c1)) - set (tbl_articles (session c0)).
                 r_id r \<noteq> a_id a) \<and>
            (\<forall>r \<in> set results. r_document_name r = name \<longrightarrow>
               (\<exists>a \<in> set (units_of (session c2) name).
                  r_id r = a_id a \<and> r_content r = a_content a)) \<and>
            (wellformed (session c0) \<and> (limit < 0 \<or> int (length results) < limit) \<and>
             fts5_match_expr E query = Inr toks \<longrightarrow>
               (\<forall>a \<in> set (units_of (session c2) name).
                  fts5_matches E toks (fts_row_of (Some name) a) \<longrightarrow>
                  (\<exists>r \<in> set results. r_id r = a_id a \<and> r_content r = a_content a \<and>
                     r_document_name r = name))))"
proof -
  let ?d1 = "next_document_id (session c0)"
  let ?d2 = "next_document_id (session c1)"
  from index_document_enhanced_effect(1) [OF assms(1)] obtain news1 where
    a1: "tbl_articles (session c1) = tbl_articles (session c0) @ news1"
    and b1: "\<forall>a \<in> set news1. a_document_id a = ?d1 \<and> last_article_id (session c0) < a_id a"
    and e1: "\<forall>a \<in> set (tbl_articles (session c1)). a_id a \<le> last_article_id (session c1)"
    by (elim exE conjE)
  from index_document_enhanced_effect(1) [OF assms(2)] obtain news2 pages2 units2 where
    p2: "parse_markdown_document_enhanced fs2 path2 name = Inr (pages2, units2)"
    and a2: "tbl_articles (session c2) = tbl_articles (session c1) @ news2"
    and u2: "list_all2 same_unit news2 units2"
    and b2: "\<forall>a \<in> set news2. a_document_id a = ?d2 \<and> last_article_id (session c1) < a_id a"
    and c2: "\<forall>a \<in> set (tbl_articles (session c1)). a_document_id a \<noteq> ?d2"
    and f2: "wellformed (session c1) \<longrightarrow>
         tbl_articles_fts (session c2) =
           tbl_articles_fts (session c1) @ map (fts_row_of (Some name)) news2"
    by (elim exE conjE)
  note docs1 = index_document_enhanced_effect(2,3) [OF assms(1)]
  note docs2 = index_document_enhanced_effect(2,3) [OF assms(2)]
  have units: "units_of (session c2) name = news2"
    using units_of_reindexed [OF assms(2) a2] b2 c2 by blast
  from docs1(2) obtain y where y: "y \<in> set (tbl_documents (session c1))" "d_id y = ?d1"
    by blast
  then have d12: "?d1 < ?d2"
    using next_document_id_fresh(2) [of y "session c1"] by simp
  have no_d1: "\<forall>x \<in> set (tbl_documents (session c2)). d_id x \<noteq> ?d1"
  proof
    fix x assume x: "x \<in> set (tbl_documents (session c2))"
    show "d_id x \<noteq> ?d1"
    proof
      assume i: "d_id x = ?d1"
      with d12 have n: "d_id x \<noteq> ?d2" by simp
      with docs2(1) x have "x \<in> set (tbl_documents (session c1))" and "d_name x \<noteq> name"
        by blast+
      with docs1(1) i show False by blast
    qed
  qed
  have first: "\<forall>r \<in> set results.
      \<forall>a \<in> set (tbl_articles (session c1)) - set (tbl_articles (session c0)). r_id r \<noteq> a_id a"
    if s: "search_enhanced E M c2 query limit = Inr results"
  proof (intro ballI notI)
    fix r a
    assume r: "r \<in> set results"
      and a: "a \<in> set (tbl_articles (session c1)) - set (tbl_articles (session c0))"
      and eq: "r_id r = a_id a"
    from a a1 have an: "a \<in> set news1" by auto
    with b1 have lo: "last_article_id (session c0) < a_id a" by blast
    from a e1 have hi: "a_id a \<le> last_article_id (session c1)" by blast
    from search_enhanced_sound [OF s r] obtain a' d' where
      a': "a' \<in> set (tbl_articles (session c2))" and d': "d' \<in> set (tbl_documents (session c2))"
      and j: "d_id d' = a_document_id a'" and i: "r_id r = a_id a'"
      by blast
    from a' a2 a1 have "a' \<in> set (tbl_articles (session c0)) \<or> a' \<in> set news1 \<or> a' \<in> set news2"
      by auto
    then have "a' \<in> set news1"
    proof (elim disjE)
      assume "a' \<in> set (tbl_articles (session c0))"
      then have "a_id a' \<le> last_article_id (session c0)"
        by (rule article_ids_bounded)
      with lo eq i show ?thesis by simp
    next
      assume "a' \<in> set news2"
      with b2 have "last_article_id (session c1) < a_id a'" by blast
      with hi eq i show ?thesis by simp
    qed
    with b1 j have "d_id d' = ?d1" by simp
    with no_d1 d' show False by blast
  qed
  have under_name: "\<forall>r \<in> set results. r_document_name r = name \<longrightarrow>
      (\<exists>a \<in> set (units_of (session c2) name). r_id r = a_id a \<and> r_content r = a_content a)"
    if s: "search_enhanced E M c2 query limit = Inr results"
  proof (intro ballI impI)
    fix r assume r: "r \<in> set results" and n: "r_document_name r = name"
    from search_enhanced_sound [OF s r] n obtain a d where
      "a \<in> set (tbl_articles (session c2))" "d \<in> set (tbl_documents (session c2))"
      "d_id d = a_document_id a" "r_id r = a_id a" "r_content r = a_content a" "d_name d = name"
      by auto
    then have "a \<in> set (units_of (session c2) name)" "r_id r = a_id a \<and> r_content r = a_content a"
      unfolding units_of_def by auto
    then show "\<exists>a \<in> set (units_of (session c2) name). r_id r = a_id a \<and> r_content r = a_content a"
      by blast
  qed
  have second: "\<forall>a \<in> set (units_of (session c2) name).
      fts5_matches E toks (fts_row_of (Some name) a) \<longrightarrow>
      (\<exists>r \<in> set results. r_id r = a_id a \<and> r_content r = a_content a \<and>
         r_document_name r = name)"
    if s: "search_enhanced E M c2 query limit = Inr results"
      and h: "wellformed (session c0) \<and> (limit < 0 \<or> int (length results) < limit) \<and>
        fts5_match_expr E query = Inr toks"
  proof (intro ballI impI)
    fix a assume a: "a \<in> set (units_of (session c2) name)"
      and m: "fts5_matches E toks (fts_row_of (Some name) a)"
    from h have "wellformed (session (snd (index_document_enhanced fs1 c0 path1 name title1)))"
      by (intro wellformed_index_document_enhanced) simp
    then have "wellformed (session c1)"
      unfolding assms(1) by simp
    with f2 a units have f: "fts_row_of (Some name) a \<in> set (tbl_articles_fts (session c2))"
      by simp
    from a units a2 have a': "a \<in> set (tbl_articles (session c2))"
      by simp
    from a units b2 have ad: "a_document_id a = ?d2"
      by blast
    from docs2(2) obtain d where d: "d \<in> set (tbl_documents (session c2))" "d_id d = ?d2"
      by blast
    with docs2(1) have dn: "d_name d = name"
      by blast
    have rid: "a_id a = af_rowid (fts_row_of (Some name) a)"
      by (simp add: fts_row_of_def)
    from h have l: "limit < 0 \<or> int (length results) < limit"
      and t: "fts5_match_expr E query = Inr toks"
      by simp_all
    from search_enhanced_complete [OF s l t f m a' rid d(1)] d(2) ad dn
    show "\<exists>r \<in> set results. r_id r = a_id a \<and> r_content r = a_content a \<and>
        r_document_name r = name"
      by simp
  qed
  from p2 u2 units first under_name second show ?thesis
    by blast
qed

theorem reindex_replaces_units_witness:
  "(\<exists>pages units.
      parse_markdown_document_enhanced (\<lambda>path. Text scenario_b_document) [100, 111, 99]
        [108, 97, 119] = Inr (pages, units) \<and>
      list_all2 same_unit (units_of (session reindexed) [108, 97, 119]) units)
   \<and> map a_content (units_of (session reindexed) [108, 97, 119]) = [scenario_b_line]
   \<and> map_sum id (map (\<lambda>r. (r_id r, r_content r)))
       (search_enhanced (words_engine af_content af_rowid) plain_re reindexed [1606, 1589] 10) =
       Inr [(2, scenario_b_line)]
   \<and> (\<exists>r \<in> set (projr (search_enhanced (words_engine af_content af_rowid) plain_re reindexed
                         [1606, 1589] 10)).
        r_id r = a_id (hd (units_of (session reindexed) [108, 97, 119])) \<and>
        r_content r = a_content (hd (units_of (session reindexed) [108, 97, 119])) \<and>
        r_document_name r = [108, 97, 119])"
proof -
  let ?E = "words_engine af_content af_rowid :: (articles_fts_row, int) fts5_engine"
  let ?s = "search_enhanced ?E plain_re reindexed [1606, 1589] 10"
  let ?a = "hd (units_of (session reindexed) [108, 97, 119])"
  have i1: "index_document_enhanced (\<lambda>path. Text scenario_a_document) init_database
      [100, 111, 99] [108, 97, 119] [] = (Inr 1, scenario_a_indexed)"
  proof -
    have "fst (index_document_enhanced (\<lambda>path. Text scenario_a_document) init_database
        [100, 111, 99] [108, 97, 119] []) = Inr 1"
      by code_simp
    then show ?thesis
      unfolding scenario_a_indexed_def by (simp add: prod_eq_iff)
  qed
  have i2: "index_document_enhanced (\<lambda>path. Text scenario_b_document) scenario_a_indexed
      [100, 111, 99] [108, 97, 119] [] = (Inr 1, reindexed)"
  proof -
    have "fst (index_document_enhanced (\<lambda>path. Text scenario_b_document) scenario_a_indexed
        [100, 111, 99] [108, 97, 119] []) = Inr 1"
      by code_simp
    then show ?thesis
      unfolding reindexed_def by (simp add: prod_eq_iff)
  qed
  have v: "map a_content (units_of (session reindexed) [108, 97, 119]) = [scenario_b_line]"
    "map_sum id (map (\<lambda>r. (r_id r, r_content r))) ?s = Inr [(2, scenario_b_line)]"
    by code_simp+
  have "\<not> isl ?s"
    by code_simp
  then have s: "?s = Inr (projr ?s)"
    by (rule sum.collapse(2) [symmetric])
  have "\<not> isl (fts5_match_expr ?E [1606, 1589])"
    by code_simp
  then have q: "fts5_match_expr ?E [1606, 1589] = Inr (projr (fts5_match_expr ?E [1606, 1589]))"
    by (rule sum.collapse(2) [symmetric])
  have l: "int (length (projr ?s)) < 10"
    by code_simp
  have m: "fts5_matches ?E (projr (fts5_match_expr ?E [1606, 1589]))
      (fts_row_of (Some [108, 97, 119]) ?a)"
    by code_simp
  from v(1) have a: "?a \<in> set (units_of (session reindexed) [108, 97, 119])"
    by (intro hd_in_set) auto
  note t = reindex_replaces_units [OF i1 i2, of ?E plain_re "[1606, 1589]" 10 "projr ?s"
      "projr (fts5_match_expr ?E [1606, 1589])"]
  from t have t1: "\<exists>pages units.
      parse_markdown_document_enhanced (\<lambda>path. Text scenario_b_document) [100, 111, 99]
        [108, 97, 119] = Inr (pages, units) \<and>
      list_all2 same_unit (units_of (session reindexed) [108, 97, 119]) units"
    by (rule conjunct1)
  from t s wellformed_empty l q have "\<forall>a \<in> set (units_of (session reindexed) [108, 97, 119]).
      fts5_matches ?E (projr (fts5_match_expr ?E [1606, 1589]))
        (fts_row_of (Some [108, 97, 119]) a) \<longrightarrow>
      (\<exists>r \<in> set (projr ?s). r_id r = a_id a \<and> r_content r = a_content a \<and>
         r_document_name r = [108, 97, 119])"
    by blast
  with a m have t2: "\<exists>r \<in> set (projr ?s). r_id r = a_id ?a \<and> r_content r = a_content ?a \<and>
      r_document_name r = [108, 97, 119]"
    by blast
  from t1 v t2 show ?thesis
    by (intro conjI)
qed

end
